theory Spec2Isabelle
  imports Main "HOL-Library.AList"
begin

section \<open>The MCP agent (app/agent/mcp.py)\<close>

subsection \<open>Data\<close>

text \<open>
  \<^verbatim>\<open>AgentState\<close> is imported from \<^verbatim>\<open>app.schema\<close>; the agent uses the members
  \<^verbatim>\<open>RUNNING\<close> and \<^verbatim>\<open>FINISHED\<close>, and \<^verbatim>\<open>IDLE\<close> is the state of an agent that
  is not running.
\<close>

datatype agent_state = IDLE | RUNNING | FINISHED | ERROR

text \<open>
  What a Python call may raise. \<^verbatim>\<open>except Exception\<close> catches \<open>Exception msg\<close>
  (any subclass of \<^verbatim>\<open>Exception\<close>, \<open>msg\<close> being \<^verbatim>\<open>str(e)\<close>);
  \<^verbatim>\<open>asyncio.CancelledError\<close> derives from \<^verbatim>\<open>BaseException\<close> and passes through
  such a handler.
\<close>

datatype raised = Exception string | CancelledError

text \<open>
  The messages the agent itself appends to its memory. The two system messages of
  \<^verbatim>\<open>_refresh_tools\<close> join the names of a Python set with \<^verbatim>\<open>', '\<close>; the
  order of that enumeration is unspecified, so the message carries the set.
\<close>

datatype message =
    User_message string
  | New_tools_available "string set"
  | Tools_no_longer_available "string set"
  | Other_message string

text \<open>The lines the modelled code writes through \<^verbatim>\<open>logger\<close>.\<close>

datatype log_entry =
    Log_added "string set"
  | Log_removed "string set"
  | Log_changed "string set"
  | Log_service_unavailable
  | Log_service_shut_down
  | Log_step int int
  | Log_cancel_seen_before_step
  | Log_cancel_seen_after_step
  | Log_error_running string
  | Log_callback_error string

text \<open>
  \<^verbatim>\<open>self.mcp_clients\<close>: \<open>session\<close> tells whether \<^verbatim>\<open>mcp_clients.session\<close> is
  set, \<open>tool_map\<close> lists the keys of \<^verbatim>\<open>mcp_clients.tool_map\<close> (the tool objects
  are never used by the agent's code, only the names and whether the map is empty).
\<close>

record mcp_clients =
  session :: bool
  tool_map :: "string list"

text \<open>
  A Python dict is an association list with one entry per key, in insertion order:
  \<open>map_of d k\<close> is \<^verbatim>\<open>d.get(k)\<close>, \<open>AList.update k v d\<close> is \<^verbatim>\<open>d[k] = v\<close>, and
  \<open>dict_keys d\<close> is \<^verbatim>\<open>set(d.keys())\<close>.
\<close>

type_synonym 's schemas = "(string \<times> 's) list"

definition dict_keys :: "('k \<times> 'v) list \<Rightarrow> 'k set" where
  "dict_keys d = set (map fst d)"

text \<open>
  The fields of \<^verbatim>\<open>MCPAgent\<close> that its methods read or write. \<open>'s\<close> is the type
  of a tool's input schema (a JSON object, compared with \<^verbatim>\<open>!=\<close>).
  \<open>mcp_clients\<close> is \<open>None\<close> after \<^verbatim>\<open>cleanup\<close>; \<open>cancelled\<close> is
  \<^verbatim>\<open>self._cancelled\<close>; \<open>cancel_attrs\<close> tells whether the attributes
  \<^verbatim>\<open>is_cancelled\<close> and \<^verbatim>\<open>cancel_run\<close> are set on the object. Python's integers
  are unbounded, so the two counters are of type \<open>int\<close>.
\<close>

record 's agent =
  mcp_clients :: "mcp_clients option"
  tool_schemas :: "'s schemas"
  special_tool_names :: "string list"
  memory :: "message list"
  state :: agent_state
  current_step :: int
  max_steps :: int
  cancelled :: bool
  cancel_attrs :: bool

definition refresh_tools_interval :: int where
  "refresh_tools_interval = 5"

subsection \<open>Refreshing the tool snapshot\<close>

text \<open>
  The dict comprehension \<^verbatim>\<open>{tool.name: tool.inputSchema for tool in response.tools}\<close>:
  the tools are entered in order, a later tool of the same name replaces the earlier.
\<close>

definition current_tools_of :: "(string \<times> 's) list \<Rightarrow> 's schemas" where
  "current_tools_of tools = foldl (\<lambda>d (name, schema). AList.update name schema d) [] tools"

text \<open>
  The three differences \<^verbatim>\<open>_refresh_tools\<close> computes from the current and the previous
  snapshot. \<^verbatim>\<open>list(s)\<close> of a set enumerates each member once in an unspecified
  order, so each list is modelled by the set it enumerates. In \<open>changed_tools\<close> the
  name ranges over the intersection, where \<^verbatim>\<open>current_tools[name]\<close> and
  \<^verbatim>\<open>self.tool_schemas.get(name)\<close> are both present.
\<close>

definition added_tools :: "'s schemas \<Rightarrow> 's schemas \<Rightarrow> string set" where
  "added_tools current previous = dict_keys current - dict_keys previous"

definition removed_tools :: "'s schemas \<Rightarrow> 's schemas \<Rightarrow> string set" where
  "removed_tools current previous = dict_keys previous - dict_keys current"

definition changed_tools :: "'s schemas \<Rightarrow> 's schemas \<Rightarrow> string set" where
  "changed_tools current previous =
     Set.filter (\<lambda>name. map_of current name \<noteq> map_of previous name)
       (dict_keys current \<inter> dict_keys previous)"

text \<open>
  The result of one call of \<^verbatim>\<open>_refresh_tools\<close>: it either raises (the agent is then as
  it was when the exception left the method), or returns the pair
  \<^verbatim>\<open>(added_tools, removed_tools)\<close>, with the agent as updated and the lines logged.
\<close>

datatype 's refresh_outcome =
    Refresh_raises raised "'s agent"
  | Refresh_returns "string set" "string set" "'s agent" "log_entry list"

text \<open>
  \<open>reply\<close> is what \<^verbatim>\<open>await self.mcp_clients.session.list_tools()\<close> does at this call:
  it raises, or it returns the server's tools as (name, inputSchema) pairs. The method
  has no handler around the call. When \<^verbatim>\<open>self.mcp_clients\<close> is \<^verbatim>\<open>None\<close> (after
  \<^verbatim>\<open>cleanup\<close>), reading its \<^verbatim>\<open>session\<close> raises an \<^verbatim>\<open>AttributeError\<close>, whose
  text has the two names in single quotes.
\<close>

definition no_attribute_session :: string where
  "no_attribute_session =
     [CHR 0x27] @ ''NoneType'' @ [CHR 0x27] @ '' object has no attribute ''
       @ [CHR 0x27] @ ''session'' @ [CHR 0x27]"

definition refresh_tools :: "(raised + (string \<times> 's) list) \<Rightarrow> 's agent \<Rightarrow> 's refresh_outcome" where
  "refresh_tools reply a =
     (case mcp_clients a of
        None \<Rightarrow> Refresh_raises (Exception no_attribute_session) a
      | Some clients \<Rightarrow>
          if \<not> session clients then Refresh_returns {} {} a []
          else (case reply of
            Inl e \<Rightarrow> Refresh_raises e a
          | Inr tools \<Rightarrow>
              let current = current_tools_of tools;
                  added = added_tools current (tool_schemas a);
                  removed = removed_tools current (tool_schemas a);
                  changed = changed_tools current (tool_schemas a);
                  a1 = a\<lparr>tool_schemas := current\<rparr>;
                  a2 = (if added \<noteq> {}
                        then a1\<lparr>memory := memory a1 @ [New_tools_available added]\<rparr>
                        else a1);
                  a3 = (if removed \<noteq> {}
                        then a2\<lparr>memory := memory a2 @ [Tools_no_longer_available removed]\<rparr>
                        else a2)
              in Refresh_returns added removed a3
                   ((if added \<noteq> {} then [Log_added added] else []) @
                    (if removed \<noteq> {} then [Log_removed removed] else []) @
                    (if changed \<noteq> {} then [Log_changed changed] else []))))"

subsection \<open>Deciding the next action\<close>

text \<open>
  \<^verbatim>\<open>think\<close> either returns a Boolean or raises; the agent is given as the method
  leaves it.
\<close>

datatype 's think_outcome =
    Think_returns bool "'s agent"
  | Think_raises raised "'s agent"

text \<open>
  \<^verbatim>\<open>MCPAgent.think\<close>. \<open>super_think\<close> is the parent class's \<^verbatim>\<open>think\<close>, which is not
  part of this file and is taken as a parameter; \<open>reply\<close> is the server's answer to
  the \<^verbatim>\<open>list_tools\<close> call of the refresh, should one be made. The second component
  of the result lists the lines logged by \<^verbatim>\<open>think\<close> and \<^verbatim>\<open>_refresh_tools\<close>.
  After the refresh the method tests \<^verbatim>\<open>self.mcp_clients.tool_map\<close> again. The
  replacement of \<^verbatim>\<open>logger.info\<close> around the parent's call changes what is logged and
  published, not the result, and is left out.
\<close>

definition think ::
  "('s agent \<Rightarrow> 's think_outcome) \<Rightarrow> (raised + (string \<times> 's) list) \<Rightarrow> 's agent
     \<Rightarrow> 's think_outcome \<times> log_entry list" where
  "think super_think reply a =
     (case mcp_clients a of
        None \<Rightarrow> (Think_raises (Exception no_attribute_session) a, [])
      | Some clients \<Rightarrow>
          if \<not> session clients \<or> tool_map clients = []
          then (Think_returns False (a\<lparr>state := FINISHED\<rparr>), [Log_service_unavailable])
          else if current_step a mod refresh_tools_interval = 0
          then (case refresh_tools reply a of
                  Refresh_raises e a1 \<Rightarrow> (Think_raises e a1, [])
                | Refresh_returns added removed a1 lg \<Rightarrow>
                    (case mcp_clients a1 of
                       None \<Rightarrow> (Think_raises (Exception no_attribute_session) a1, lg)
                     | Some clients1 \<Rightarrow>
                         if tool_map clients1 = []
                         then (Think_returns False (a1\<lparr>state := FINISHED\<rparr>),
                               lg @ [Log_service_shut_down])
                         else (super_think a1, lg)))
          else (super_think a, []))"

subsection \<open>Termination tools\<close>

text \<open>
  \<^verbatim>\<open>str.lower()\<close> on the characters of ASCII: the letters \<open>A\<close> to \<open>Z\<close> (codes 65
  to 90) move to \<open>a\<close> to \<open>z\<close>, every other character stays. A \<open>string\<close> is a list
  of bytes, so tool names are taken to be ASCII.
\<close>

definition lower_char :: "char \<Rightarrow> char" where
  "lower_char c =
     (let n = (of_char c :: nat) in if 65 \<le> n \<and> n \<le> 90 then char_of (n + 32) else c)"

definition lower :: "string \<Rightarrow> string" where
  "lower s = map lower_char s"

text \<open>The default of the field \<^verbatim>\<open>special_tool_names\<close>.\<close>

definition default_special_tool_names :: "string list" where
  "default_special_tool_names = [''terminate'']"

text \<open>
  \<^verbatim>\<open>_should_finish_execution(self, name)\<close> compares the lowered name with the
  literal \<^verbatim>\<open>"terminate"\<close>; it does not read \<^verbatim>\<open>self.special_tool_names\<close>.
\<close>

definition should_finish_execution :: "'s agent \<Rightarrow> string \<Rightarrow> bool" where
  "should_finish_execution a name = (lower name = ''terminate'')"

text \<open>
  The specification's wording, for comparison: the name matches an entry of the
  configured special tool list, case-insensitively.
\<close>

definition spec_matches_special_tool :: "string list \<Rightarrow> string \<Rightarrow> bool" where
  "spec_matches_special_tool names name = (lower name \<in> set (map lower names))"

subsection \<open>Progress callbacks\<close>

text \<open>
  A callback is a Python function of the published text. It acts on the world \<open>'w\<close>
  outside the agent; it returns, or it raises, in both cases leaving a world behind.
  What it raises is an \<^verbatim>\<open>Exception\<close> or, like \<^verbatim>\<open>asyncio.CancelledError\<close> and
  \<^verbatim>\<open>KeyboardInterrupt\<close>, another \<^verbatim>\<open>BaseException\<close>, for which \<open>CancelledError\<close>
  stands.
\<close>

datatype 'w callback_outcome =
    Callback_returns 'w
  | Callback_raises raised 'w

type_synonym ('e, 'w) callback = "'e \<Rightarrow> 'w \<Rightarrow> 'w callback_outcome"

definition world_after :: "'w callback_outcome \<Rightarrow> 'w" where
  "world_after out = (case out of Callback_returns w \<Rightarrow> w | Callback_raises e w \<Rightarrow> w)"

text \<open>The line logged for a call: one for an \<^verbatim>\<open>Exception\<close>, none otherwise.\<close>

definition error_of :: "'w callback_outcome \<Rightarrow> log_entry list" where
  "error_of out =
     (case out of
        Callback_returns w \<Rightarrow> []
      | Callback_raises (Exception msg) w \<Rightarrow> [Log_callback_error msg]
      | Callback_raises CancelledError w \<Rightarrow> [])"

text \<open>What \<^verbatim>\<open>except Exception\<close> lets the loop go on after.\<close>

definition caught :: "'w callback_outcome \<Rightarrow> bool" where
  "caught out =
     (case out of
        Callback_returns w \<Rightarrow> True
      | Callback_raises (Exception msg) w \<Rightarrow> True
      | Callback_raises CancelledError w \<Rightarrow> False)"

text \<open>\<^verbatim>\<open>add_thinking_callback\<close> appends to \<^verbatim>\<open>self._thinking_callbacks\<close>.\<close>

definition add_thinking_callback ::
  "('e, 'w) callback \<Rightarrow> ('e, 'w) callback list \<Rightarrow> ('e, 'w) callback list" where
  "add_thinking_callback callback thinking_callbacks = thinking_callbacks @ [callback]"

text \<open>
  How a call of \<^verbatim>\<open>_notify_thinking\<close> ends: it returns, or an exception leaves it; in
  both cases with the world the callbacks called have left and the lines logged.
\<close>

datatype 'w notify_outcome =
    Notify_returns 'w "log_entry list"
  | Notify_raises raised 'w "log_entry list"

text \<open>The lines \<open>lg\<close> were logged before what \<open>out\<close> tells.\<close>

definition logged_before :: "log_entry list \<Rightarrow> 'w notify_outcome \<Rightarrow> 'w notify_outcome" where
  "logged_before lg out =
     (case out of
        Notify_returns w lg' \<Rightarrow> Notify_returns w (lg @ lg')
      | Notify_raises e w lg' \<Rightarrow> Notify_raises e w (lg @ lg'))"

text \<open>
  \<^verbatim>\<open>_notify_thinking\<close>: the loop over the callbacks, each call inside its own
  \<^verbatim>\<open>try\<close>. The handler is \<^verbatim>\<open>except Exception\<close>: an \<^verbatim>\<open>Exception\<close> of a callback is
  logged and the loop goes on; any other exception leaves the loop and the method,
  and the callbacks after it are not called.
\<close>

fun notify_thinking ::
  "('e, 'w) callback list \<Rightarrow> 'e \<Rightarrow> 'w \<Rightarrow> 'w notify_outcome" where
  "notify_thinking [] published w = Notify_returns w []"
| "notify_thinking (callback # callbacks) published w =
     (case callback published w of
        Callback_returns w1 \<Rightarrow> notify_thinking callbacks published w1
      | Callback_raises (Exception msg) w1 \<Rightarrow>
          logged_before [Log_callback_error msg] (notify_thinking callbacks published w1)
      | Callback_raises CancelledError w1 \<Rightarrow> Notify_raises CancelledError w1 [])"

text \<open>
  For comparison with \<open>notify_thinking\<close>: what each callback does when the callbacks
  are called one after the other in the order of the list, each on the world its
  predecessor left, whether that one returned or raised.
\<close>

fun called_in_turn :: "('e, 'w) callback list \<Rightarrow> 'e \<Rightarrow> 'w \<Rightarrow> 'w callback_outcome list" where
  "called_in_turn [] published w = []"
| "called_in_turn (callback # callbacks) published w =
     callback published w # called_in_turn callbacks published (world_after (callback published w))"

text \<open>The world after all the callbacks have been called in turn.\<close>

definition world_after_all :: "('e, 'w) callback list \<Rightarrow> 'e \<Rightarrow> 'w \<Rightarrow> 'w" where
  "world_after_all callbacks published w =
     foldl (\<lambda>w callback. world_after (callback published w)) w callbacks"

subsection \<open>Running a prompt\<close>

text \<open>
  \<^verbatim>\<open>await self.step()\<close> returns a string or raises, and may change any field of the
  agent on the way. A call of \<^verbatim>\<open>cancel_run\<close> made while the loop is suspended in
  \<^verbatim>\<open>step\<close> shows as a change of the agent that \<^verbatim>\<open>step\<close> leaves behind.
\<close>

datatype 's step_outcome =
    Step_returns string "'s agent"
  | Step_raises raised "'s agent"

text \<open>
  The methods \<^verbatim>\<open>run\<close> calls that the agent inherits from classes outside this file:
  \<^verbatim>\<open>step\<close>, \<^verbatim>\<open>is_stuck\<close>, \<^verbatim>\<open>handle_stuck_state\<close>, and
  \<^verbatim>\<open>memory.get_last_assistant_message\<close> (the content of the last assistant message,
  if there is one).
\<close>

record 's externals =
  step :: "'s agent \<Rightarrow> 's step_outcome"
  is_stuck :: "'s agent \<Rightarrow> bool"
  handle_stuck_state :: "'s agent \<Rightarrow> 's agent"
  last_assistant_message :: "'s agent \<Rightarrow> string option"


text \<open>
  How the \<^verbatim>\<open>while\<close> loop ends: by an exception leaving \<^verbatim>\<open>step\<close>, or by its
  condition or a \<^verbatim>\<open>break\<close>. \<open>results\<close> is the local list of that name,
  \<open>logged\<close> the lines logged by the loop.
\<close>

record 's loop_end =
  raised_by_step :: "raised option"
  agent_after :: "'s agent"
  results :: "string list"
  logged :: "log_entry list"

text \<open>The agent after the stuck check that follows a step.\<close>

definition after_stuck_check :: "'s externals \<Rightarrow> 's agent \<Rightarrow> 's agent" where
  "after_stuck_check E a = (if is_stuck E a then handle_stuck_state E a else a)"

text \<open>
  The \<^verbatim>\<open>while\<close> loop of \<^verbatim>\<open>run\<close>, entered with agent \<open>a\<close>, the results \<open>rs\<close>
  and the lines \<open>lg\<close> collected so far. Nothing in the loop bounds what \<^verbatim>\<open>step\<close>
  does to the counters, so the loop is a partial function: \<open>None\<close> is a loop that
  never ends.
\<close>

partial_function (option) run_loop ::
  "'s externals \<Rightarrow> 's agent \<Rightarrow> string list \<Rightarrow> log_entry list \<Rightarrow> 's loop_end option" where
  "run_loop E a rs lg =
     (if current_step a < max_steps a \<and> state a \<noteq> FINISHED \<and> \<not> cancelled a
      then
        if cancelled a
        then Some \<lparr>raised_by_step = None, agent_after = a, results = rs,
                    logged = lg @ [Log_cancel_seen_before_step]\<rparr>
        else
          (let a1 = a\<lparr>current_step := current_step a + 1\<rparr>;
               lg1 = lg @ [Log_step (current_step a1) (max_steps a1)]
           in case step E a1 of
                Step_raises e a2 \<Rightarrow>
                  Some \<lparr>raised_by_step = Some e, agent_after = a2, results = rs, logged = lg1\<rparr>
              | Step_returns step_result a2 \<Rightarrow>
                  (let a3 = after_stuck_check E a2;
                       rs1 = rs @ [step_result]
                   in if cancelled a3
                      then Some \<lparr>raised_by_step = None, agent_after = a3, results = rs1,
                                  logged = lg1 @ [Log_cancel_seen_after_step]\<rparr>
                      else run_loop E a3 rs1 lg1))
      else Some \<lparr>raised_by_step = None, agent_after = a, results = rs, logged = lg\<rparr>)"

declare run_loop.simps [code]

text \<open>
  For comparison with \<open>run_loop\<close>: the same loop, given a bound on the number of
  its iterations. With \<open>fuel\<close> iterations used up it ends as the loop does when
  its condition fails.
\<close>

fun loop_with_fuel ::
  "'s externals \<Rightarrow> nat \<Rightarrow> 's agent \<Rightarrow> string list \<Rightarrow> log_entry list \<Rightarrow> 's loop_end" where
  "loop_with_fuel E 0 a rs lg =
     \<lparr>raised_by_step = None, agent_after = a, results = rs, logged = lg\<rparr>"
| "loop_with_fuel E (Suc fuel) a rs lg =
     (if current_step a < max_steps a \<and> state a \<noteq> FINISHED \<and> \<not> cancelled a
      then
        if cancelled a
        then \<lparr>raised_by_step = None, agent_after = a, results = rs,
               logged = lg @ [Log_cancel_seen_before_step]\<rparr>
        else
          (let a1 = a\<lparr>current_step := current_step a + 1\<rparr>;
               lg1 = lg @ [Log_step (current_step a1) (max_steps a1)]
           in case step E a1 of
                Step_raises e a2 \<Rightarrow>
                  \<lparr>raised_by_step = Some e, agent_after = a2, results = rs, logged = lg1\<rparr>
              | Step_returns step_result a2 \<Rightarrow>
                  (let a3 = after_stuck_check E a2;
                       rs1 = rs @ [step_result]
                   in if cancelled a3
                      then \<lparr>raised_by_step = None, agent_after = a3, results = rs1,
                             logged = lg1 @ [Log_cancel_seen_after_step]\<rparr>
                      else loop_with_fuel E fuel a3 rs1 lg1))
      else \<lparr>raised_by_step = None, agent_after = a, results = rs, logged = lg\<rparr>)"

text \<open>
  What \<^verbatim>\<open>run\<close> returns: the content of the last assistant message, or the step
  results joined by newlines, or the text that nothing was generated; the text that
  the user terminated the task; or the text that the execution failed, with the
  exception's message.
\<close>

datatype run_return =
    Final_response string
  | Joined_results "string list"
  | No_response_generated
  | Terminated_by_user
  | Execution_failed string

datatype run_outcome =
    Run_returns run_return
  | Run_raises raised

record 's run_end =
  outcome :: run_outcome
  final :: "'s agent"
  step_results :: "string list"
  run_log :: "log_entry list"

text \<open>
  Modelled from the spec: \<^verbatim>\<open>state_context\<close> is a context manager of the base class,
  which is not among the sources. Following the spec's life cycle (a run goes from
  Idle to Running and, whatever its end, back to Idle, ready for the next prompt),
  entering sets the state to the given one and leaving restores the state held on
  entry, also when an exception passes through.
\<close>

definition state_context_enter :: "agent_state \<Rightarrow> 's agent \<Rightarrow> 's agent" where
  "state_context_enter new_state a = a\<lparr>state := new_state\<rparr>"

definition state_context_exit :: "agent_state \<Rightarrow> 's agent \<Rightarrow> 's agent" where
  "state_context_exit previous_state a = a\<lparr>state := previous_state\<rparr>"

text \<open>
  The statements of \<^verbatim>\<open>run\<close> that follow the loop, inside the \<^verbatim>\<open>try\<close>: leaving
  the state context, then the choice of the value returned. An exception that left
  \<^verbatim>\<open>step\<close> passes through them.
\<close>

definition after_loop :: "'s externals \<Rightarrow> agent_state \<Rightarrow> 's loop_end \<Rightarrow> 's run_end" where
  "after_loop E previous_state l =
     (let b = state_context_exit previous_state (agent_after l)
      in \<lparr>outcome =
            (case raised_by_step l of
               Some e \<Rightarrow> Run_raises e
             | None \<Rightarrow>
                 if cancelled b then Run_returns Terminated_by_user
                 else (case last_assistant_message E b of
                         Some content \<Rightarrow> Run_returns (Final_response content)
                       | None \<Rightarrow>
                           if results l \<noteq> [] then Run_returns (Joined_results (results l))
                           else Run_returns No_response_generated)),
          final = b, step_results = results l, run_log = logged l\<rparr>)"

text \<open>The loop from any of its states on, followed by the statements after it.\<close>

definition loop_then_return ::
  "'s externals \<Rightarrow> agent_state \<Rightarrow> 's agent \<Rightarrow> string list \<Rightarrow> log_entry list
     \<Rightarrow> 's run_end option" where
  "loop_then_return E previous_state a rs lg =
     map_option (after_loop E previous_state) (run_loop E a rs lg)"

text \<open>
  The body of the \<^verbatim>\<open>try\<close> statement of \<^verbatim>\<open>run\<close>, from the agent as it is when
  the body is entered (\<^verbatim>\<open>cancel_run\<close> is installed by then, so \<open>cancelled a\<close> may
  already hold): the user message is added to the memory (modelled as appending),
  the results are emptied, the step counter is reset, and the loop runs inside the
  state context. The calls of \<^verbatim>\<open>_notify_thinking\<close> do not change the agent, and
  they return as long as the callbacks raise nothing but an \<^verbatim>\<open>Exception\<close> (see
  \<open>notify_thinking\<close>), as is taken here of the callbacks registered: the calls are
  left out, with the tool lookups that only choose among them.
\<close>

definition try_body :: "'s externals \<Rightarrow> string \<Rightarrow> 's agent \<Rightarrow> 's run_end option" where
  "try_body E prompt a =
     (let a1 = a\<lparr>memory := memory a @ [User_message prompt]\<rparr>;
          a2 = a1\<lparr>current_step := 0\<rparr>
      in loop_then_return E (state a2) (state_context_enter RUNNING a2) [] [])"

text \<open>
  \<^verbatim>\<open>except Exception as e\<close>: the error is logged once and its text becomes the value
  returned. Another exception passes.
\<close>

definition run_except :: "'s run_end \<Rightarrow> 's run_end" where
  "run_except r =
     (case outcome r of
        Run_raises (Exception msg) \<Rightarrow>
          r\<lparr>outcome := Run_returns (Execution_failed msg),
            run_log := run_log r @ [Log_error_running msg]\<rparr>
      | Run_raises CancelledError \<Rightarrow> r
      | Run_returns v \<Rightarrow> r)"

text \<open>\<^verbatim>\<open>finally\<close>: the two attributes are deleted.\<close>

definition run_finally :: "'s run_end \<Rightarrow> 's run_end" where
  "run_finally r = r\<lparr>final := (final r)\<lparr>cancel_attrs := False\<rparr>\<rparr>"

definition agent_not_initialized :: string where
  "agent_not_initialized = ''Agent not initialized''"

text \<open>
  \<^verbatim>\<open>MCPAgent.run\<close>. The test \<^verbatim>\<open>not self.mcp_clients\<close> stands before the
  \<^verbatim>\<open>try\<close>, so its \<^verbatim>\<open>RuntimeError\<close> leaves the method.
\<close>

definition run :: "'s externals \<Rightarrow> string \<Rightarrow> 's agent \<Rightarrow> 's run_end option" where
  "run E prompt a =
     (if mcp_clients a = None
      then Some \<lparr>outcome = Run_raises (Exception agent_not_initialized), final = a,
                  step_results = [], run_log = []\<rparr>
      else map_option (run_finally \<circ> run_except)
             (try_body E prompt (a\<lparr>cancelled := False, cancel_attrs := True\<rparr>)))"

subsection \<open>What is assumed of the inherited methods, and what is read off a run\<close>

text \<open>
  The inherited methods leave the two counters alone: after a step, and the stuck
  check that follows it, \<^verbatim>\<open>current_step\<close> and \<^verbatim>\<open>max_steps\<close> are what the loop had
  set.
\<close>

definition keeps_counters :: "'s externals \<Rightarrow> bool" where
  "keeps_counters E \<longleftrightarrow>
     (\<forall>a r b. step E a = Step_returns r b \<longrightarrow>
        current_step (after_stuck_check E b) = current_step a
        \<and> max_steps (after_stuck_check E b) = max_steps a)
   \<and> (\<forall>a e b. step E a = Step_raises e b \<longrightarrow>
        current_step b = current_step a \<and> max_steps b = max_steps a)"

text \<open>
  Every step returns a non-terminal result: called on an agent that is neither
  finished nor cancelled, \<^verbatim>\<open>step\<close> does not raise, and when the loop tests its
  condition again the agent is still neither finished nor cancelled.
\<close>

definition never_terminal :: "'s externals \<Rightarrow> bool" where
  "never_terminal E \<longleftrightarrow>
     (\<forall>a. state a \<noteq> FINISHED \<and> \<not> cancelled a \<longrightarrow>
        (\<exists>r b. step E a = Step_returns r b
           \<and> state (after_stuck_check E b) \<noteq> FINISHED
           \<and> \<not> cancelled (after_stuck_check E b)))"

text \<open>
  The loop logs one line per step, with \<^verbatim>\<open>current_step\<close> and \<^verbatim>\<open>max_steps\<close> as
  they are when the step starts.
\<close>

definition is_step_line :: "log_entry \<Rightarrow> bool" where
  "is_step_line e = (case e of Log_step c m \<Rightarrow> True | _ \<Rightarrow> False)"

definition within_budget :: "int \<Rightarrow> log_entry \<Rightarrow> bool" where
  "within_budget budget e =
     (case e of Log_step c m \<Rightarrow> 1 \<le> c \<and> c \<le> m \<and> m = budget | _ \<Rightarrow> True)"

definition step_lines :: "int \<Rightarrow> int \<Rightarrow> log_entry list" where
  "step_lines done budget = map (\<lambda>c. Log_step c budget) [done + 1..budget]"

definition is_error_line :: "log_entry \<Rightarrow> bool" where
  "is_error_line e = (case e of Log_error_running msg \<Rightarrow> True | _ \<Rightarrow> False)"

text \<open>
  The ends of a run that are neither a cancellation nor a failure: one of the three
  responses.
\<close>

definition finished_normally :: "run_outcome \<Rightarrow> bool" where
  "finished_normally out =
     (case out of
        Run_returns (Final_response content) \<Rightarrow> True
      | Run_returns (Joined_results rs) \<Rightarrow> True
      | Run_returns No_response_generated \<Rightarrow> True
      | Run_returns Terminated_by_user \<Rightarrow> False
      | Run_returns (Execution_failed msg) \<Rightarrow> False
      | Run_raises e \<Rightarrow> False)"

text \<open>The agent with which \<^verbatim>\<open>run\<close>, called on \<open>a\<close>, tests the loop condition first.\<close>

definition loop_entry :: "string \<Rightarrow> 's agent \<Rightarrow> 's agent" where
  "loop_entry prompt a =
     state_context_enter RUNNING
       (a\<lparr>cancelled := False, cancel_attrs := True, memory := memory a @ [User_message prompt],
          current_step := 0\<rparr>)"

section \<open>The web interface (app/web_interface.py)\<close>

subsection \<open>Saved conversations\<close>







subsection \<open>Handling a prompt\<close>

text \<open>
  The module's dicts \<^verbatim>\<open>active_tasks\<close> and \<^verbatim>\<open>cancel_flags\<close>, keyed by client
  identifier. A task is named by a number.
\<close>

record tables =
  active_tasks :: "(string \<times> nat) list"
  cancel_flags :: "(string \<times> bool) list"

text \<open>The messages \<^verbatim>\<open>process_agent_response\<close> sends to the client, by their type.\<close>

datatype system_text = Processing_request | Task_was_terminated

datatype event =
    System_event system_text
  | Response_event run_return
  | Error_event string

record response_record =
  of_prompt :: string
  response :: run_return
  thinking_steps :: "string list"

datatype handler_result =
    Handler_returns "response_record option"
  | Handler_raises raised

record handled =
  handler_result :: handler_result
  sent :: "event list"
  tables_after :: tables

text \<open>
  The first statements of \<^verbatim>\<open>process_agent_response\<close>, up to the registration of the
  task created for \<^verbatim>\<open>agent.run(prompt)\<close>: neither assignment is guarded by a test.
\<close>

definition register_task :: "string \<Rightarrow> nat \<Rightarrow> tables \<Rightarrow> tables" where
  "register_task client task T =
     (let T1 = T\<lparr>cancel_flags := AList.update client False (cancel_flags T)\<rparr>
      in T1\<lparr>active_tasks := AList.update client task (active_tasks T1)\<rparr>)"

text \<open>The \<^verbatim>\<open>finally\<close> block: both entries of the client are deleted if present.\<close>

definition release_task :: "string \<Rightarrow> tables \<Rightarrow> tables" where
  "release_task client T =
     T\<lparr>active_tasks := AList.delete client (active_tasks T),
       cancel_flags := AList.delete client (cancel_flags T)\<rparr>"

text \<open>\<^verbatim>\<open>str(e)\<close> of the \<^verbatim>\<open>KeyError\<close> for a key: the key in quotes.\<close>

definition key_error_text :: "string \<Rightarrow> string" where
  "key_error_text k = [CHR 0x27] @ k @ [CHR 0x27]"

text \<open>
  \<^verbatim>\<open>process_agent_response\<close>. \<open>awaited\<close> is what \<^verbatim>\<open>await task\<close> gives: the value
  \<^verbatim>\<open>agent.run\<close> returned or the exception that ended the task. \<open>during\<close> is what
  other coroutines do to the tables while this one waits for the task;
  \<open>steps\<close> are the texts the thinking callback collected. Sending to the socket is
  taken to succeed. The messages of type \<^verbatim>\<open>thinking\<close> are sent by tasks of their own
  and are not listed. The call of \<^verbatim>\<open>agent.cancel_run\<close> in the handler of
  \<^verbatim>\<open>CancelledError\<close> acts on the agent, not on the tables or the socket.
\<close>

definition process_agent_response ::
  "(tables \<Rightarrow> tables) \<Rightarrow> run_outcome \<Rightarrow> string list \<Rightarrow> string \<Rightarrow> nat \<Rightarrow> string \<Rightarrow> tables
     \<Rightarrow> handled" where
  "process_agent_response during awaited steps prompt task client T =
     (let T1 = during (register_task client task T);
          (res, evs) =
            (case awaited of
               Run_raises CancelledError \<Rightarrow> (Handler_returns None, [])
             | Run_raises (Exception msg) \<Rightarrow> (Handler_raises (Exception msg), [Error_event msg])
             | Run_returns text \<Rightarrow>
                 (case map_of (cancel_flags T1) client of
                    None \<Rightarrow> (Handler_raises (Exception (key_error_text client)), [])
                  | Some True \<Rightarrow> (Handler_returns None, [System_event Task_was_terminated])
                  | Some False \<Rightarrow>
                      (Handler_returns
                         (Some \<lparr>of_prompt = prompt, response = text, thinking_steps = steps\<rparr>),
                       [Response_event text])))
      in \<lparr>handler_result = res, sent = System_event Processing_request # evs,
          tables_after = release_task client T1\<rparr>)"

text \<open>The messages of type \<^verbatim>\<open>error\<close> among those sent.\<close>

definition is_error_event :: "event \<Rightarrow> bool" where
  "is_error_event e = (case e of Error_event text \<Rightarrow> True | _ \<Rightarrow> False)"

section \<open>Sample inputs\<close>

definition clients0 :: mcp_clients where
  "clients0 = \<lparr>session = True, tool_map = [''a'', ''b'']\<rparr>"

definition agent0 :: "nat agent" where
  "agent0 = \<lparr>mcp_clients = Some clients0, tool_schemas = [(''a'', 1), (''b'', 2)],
     special_tool_names = [''terminate''], memory = [], state = IDLE, current_step = 0,
     max_steps = 3, cancelled = False, cancel_attrs = False\<rparr>"

text \<open>A step function whose every result is non-terminal.\<close>

definition externals0 :: "nat externals" where
  "externals0 = \<lparr>step = (\<lambda>a. Step_returns ''ok'' a), is_stuck = (\<lambda>a. False),
     handle_stuck_state = (\<lambda>a. a), last_assistant_message = (\<lambda>a. None)\<rparr>"

text \<open>A step function that fails at the second step.\<close>

definition externals_failing :: "nat externals" where
  "externals_failing = externals0\<lparr>step :=
     (\<lambda>a. if current_step a = 2 then Step_raises (Exception ''boom'') a
          else Step_returns ''ok'' a)\<rparr>"



text \<open>No client has a task.\<close>

definition tables0 :: tables where
  "tables0 = \<lparr>active_tasks = [], cancel_flags = []\<rparr>"

text \<open>How the loop of \<open>externals_failing\<close> ends on \<open>agent0\<close>.\<close>

definition loop_end_failing :: "nat loop_end" where
  "loop_end_failing =
     \<lparr>raised_by_step = Some (Exception ''boom''),
      agent_after = (loop_entry ''hello'' agent0)\<lparr>current_step := 2\<rparr>,
      results = [''ok''], logged = [Log_step 1 3, Log_step 2 3]\<rparr>"

text \<open>A parent \<^verbatim>\<open>think\<close> that decides to act and leaves the agent as it is.\<close>

definition super_think_continues :: "'s agent \<Rightarrow> 's think_outcome" where
  "super_think_continues a = Think_returns True a"

text \<open>An agent in its fifth step, where \<^verbatim>\<open>think\<close> refreshes the tools.\<close>

definition agent_at_refresh :: "nat agent" where
  "agent_at_refresh = agent0\<lparr>state := RUNNING, current_step := 5, max_steps := 20\<rparr>"

text \<open>An agent configured with a second special tool.\<close>

definition agent_two_special :: "nat agent" where
  "agent_two_special = agent0\<lparr>special_tool_names := [''terminate'', ''finish'']\<rparr>"



text \<open>
  A step function that names the step it is called for, returns the name and notes
  it in the memory.
\<close>

definition step_name :: "int \<Rightarrow> string" where
  "step_name n = (if n = 1 then ''first'' else if n = 2 then ''second'' else ''later'')"

definition externals_marking :: "nat externals" where
  "externals_marking = externals0\<lparr>step :=
     (\<lambda>a. Step_returns (step_name (current_step a))
            (a\<lparr>memory := memory a @ [Other_message (step_name (current_step a))]\<rparr>))\<rparr>"

text \<open>An agent configured with a negative step budget.\<close>

definition agent_negative_budget :: "nat agent" where
  "agent_negative_budget = agent0\<lparr>max_steps := - 1\<rparr>"

text \<open>
  The end of the run of \<^verbatim>\<open>agent0\<close> on the prompt \<^verbatim>\<open>hello\<close> with the marking steps: three
  steps, each of which has left its mark in the memory and its name in the results.
\<close>

definition run_end_marking :: "nat run_end" where
  "run_end_marking =
     \<lparr>outcome = Run_returns (Joined_results [''first'', ''second'', ''later'']),
      final = agent0\<lparr>memory := [User_message ''hello'', Other_message ''first'',
                                Other_message ''second'', Other_message ''later''],
                current_step := 3\<rparr>,
      step_results = [''first'', ''second'', ''later''],
      run_log = [Log_step 1 3, Log_step 2 3, Log_step 3 3]\<rparr>"

text \<open>
  The end of the run of the agent with the step budget \<^verbatim>\<open>-1\<close>: the loop's test fails
  at once, no step is run, and the counter stays at the 0 it was reset to.
\<close>

definition run_end_negative_budget :: "nat run_end" where
  "run_end_negative_budget =
     \<lparr>outcome = Run_returns No_response_generated,
      final = agent_negative_budget\<lparr>memory := [User_message ''hello'']\<rparr>,
      step_results = [], run_log = []\<rparr>"

text \<open>
  Callbacks on a world that lists the calls made: one that notes the text published
  under its name, one that notes it and fails with an \<^verbatim>\<open>Exception\<close>, and one that
  notes it and is interrupted by an exception that is no \<^verbatim>\<open>Exception\<close>.
\<close>

definition noting :: "string \<Rightarrow> (string, string list) callback" where
  "noting name published w = Callback_returns (w @ [name @ '': '' @ published])"

definition failing :: "string \<Rightarrow> (string, string list) callback" where
  "failing name published w =
     Callback_raises (Exception (name @ '' failed'')) (w @ [name @ '': '' @ published])"

definition interrupted :: "string \<Rightarrow> (string, string list) callback" where
  "interrupted name published w = Callback_raises CancelledError (w @ [name @ '': '' @ published])"

section \<open>Properties\<close>

subsection \<open>The refresh and its differences\<close>

lemma dict_keys_update: "dict_keys (AList.update k v d) = insert k (dict_keys d)"
  by (simp add: dict_keys_def dom_update)

lemma dict_keys_foldl_update:
  "dict_keys (foldl (\<lambda>d (name, schema). AList.update name schema d) d0 tools)
     = dict_keys d0 \<union> fst ` set tools"
  by (induction tools arbitrary: d0) (auto simp: case_prod_beta dict_keys_update)

lemma dict_keys_current_tools_of: "dict_keys (current_tools_of tools) = fst ` set tools"
  using dict_keys_foldl_update [of "[]" tools] by (simp add: current_tools_of_def dict_keys_def)

lemma map_of_foldl_update:
  "map_of (foldl (\<lambda>d (name, schema). AList.update name schema d) d0 tools)
     = map_of d0 ++ map_of (rev tools)"
proof (induction tools arbitrary: d0)
  case Nil
  then show ?case by simp
next
  case (Cons t tools)
  obtain k v where t: "t = (k, v)" by (cases t)
  have "map_of (AList.update k v d0) ++ map_of (rev tools)
      = map_of d0 ++ (map_of [(k, v)] ++ map_of (rev tools))"
    by (rule ext) (simp add: update_conv' map_add_def split: option.splits)
  with Cons.IH [of "AList.update k v d0"] t show ?case by simp
qed

lemma map_of_current_tools_of: "map_of (current_tools_of tools) = map_of (rev tools)"
  using map_of_foldl_update [of "[]" tools] by (simp add: current_tools_of_def)

text \<open>
  Claim C1. With a session present and the server answering with the list \<open>tools\<close>,
  \<^verbatim>\<open>_refresh_tools\<close> returns as added the keys of the current snapshot that the
  previous one lacks and as removed the keys of the previous snapshot that the
  current one lacks, installs the current snapshot, and records as changed (one log
  line, written when the set is not empty) exactly the keys of both snapshots whose
  schemas differ. The three sets are pairwise disjoint. The current snapshot has the
  names the server listed, each with the schema of its last entry. Going from the
  tools \<open>a\<close>, \<open>b\<close> to the tools \<open>b\<close>, \<open>c\<close>, with \<open>b\<close> as it was, gives added
  \<open>{c}\<close>, removed \<open>{a}\<close> and nothing changed.
\<close>

theorem refresh_tools_diff:
  fixes a :: "'s agent" and tools :: "(string \<times> 's) list"
  defines "previous \<equiv> tool_schemas a"
  defines "current \<equiv> current_tools_of tools"
  defines "added \<equiv> dict_keys current - dict_keys previous"
  defines "removed \<equiv> dict_keys previous - dict_keys current"
  defines "changed \<equiv> {k. k \<in> dict_keys current \<and> k \<in> dict_keys previous
                          \<and> map_of current k \<noteq> map_of previous k}"
  assumes "mcp_clients a = Some clients" and "session clients"
  shows "(\<exists>a' lg. refresh_tools (Inr tools) a = Refresh_returns added removed a' lg
            \<and> tool_schemas a' = current
            \<and> (\<forall>C. (Log_changed C \<in> set lg) = (C = changed \<and> changed \<noteq> {})))
       \<and> changed_tools current previous = changed
       \<and> dict_keys current = fst ` set tools
       \<and> map_of current = map_of (rev tools)
       \<and> added \<inter> removed = {} \<and> added \<inter> changed = {} \<and> removed \<inter> changed = {}
       \<and> (previous = [(''a'', sa), (''b'', sb)] \<and> tools = [(''b'', sb), (''c'', sc)]
            \<longrightarrow> added = {''c''} \<and> removed = {''a''} \<and> changed = {})"
proof -
  have 1: "\<exists>a' lg. refresh_tools (Inr tools) a = Refresh_returns added removed a' lg
            \<and> tool_schemas a' = current
            \<and> (\<forall>C. (Log_changed C \<in> set lg) = (C = changed \<and> changed \<noteq> {}))"
    using assms
    by (auto simp: refresh_tools_def Let_def added_tools_def removed_tools_def
        changed_tools_def)
  have 2: "changed_tools current previous = changed"
    by (auto simp: changed_tools_def changed_def)
  have 3: "dict_keys current = fst ` set tools"
    by (simp add: current_def dict_keys_current_tools_of)
  have 4: "map_of current = map_of (rev tools)"
    by (simp add: current_def map_of_current_tools_of)
  have 5: "added \<inter> removed = {} \<and> added \<inter> changed = {} \<and> removed \<inter> changed = {}"
    by (auto simp: added_def removed_def changed_def)
  have 6: "previous = [(''a'', sa), (''b'', sb)] \<and> tools = [(''b'', sb), (''c'', sc)]
            \<longrightarrow> added = {''c''} \<and> removed = {''a''} \<and> changed = {}"
    by (auto simp: added_def removed_def changed_def current_def current_tools_of_def
        dict_keys_def)
  from 1 2 3 4 5 6 show ?thesis by blast
qed

theorem refresh_tools_diff_witness:
  "mcp_clients agent0 = Some clients0 \<and> session clients0
   \<and> (\<exists>a' lg. refresh_tools (Inr [(''b'', 2), (''c'', 3)]) agent0
                  = Refresh_returns {''c''} {''a''} a' lg
               \<and> tool_schemas a' = current_tools_of [(''b'', 2), (''c'', 3)]
               \<and> (\<forall>C. Log_changed C \<notin> set lg))"
proof -
  have h1: "mcp_clients agent0 = Some clients0" by (simp add: agent0_def)
  have h2: "session clients0" by (simp add: clients0_def)
  have prev: "tool_schemas agent0 = [(''a'', 1), (''b'', 2)]" by (simp add: agent0_def)
  note T = refresh_tools_diff [OF h1 h2, of "[(''b'', 2), (''c'', 3)]" 1 2 3]
  note scenario = T [THEN conjunct2, THEN conjunct2, THEN conjunct2, THEN conjunct2,
      THEN conjunct2, THEN conjunct2, THEN conjunct2, rule_format, OF conjI, OF prev refl]
  from T [THEN conjunct1] show ?thesis
    unfolding scenario [THEN conjunct1] scenario [THEN conjunct2, THEN conjunct1]
      scenario [THEN conjunct2, THEN conjunct2]
    using h1 h2 by simp
qed

subsection \<open>The loop\<close>

lemma run_loop_ends:
  assumes K: "keeps_counters E"
  shows "0 \<le> current_step a \<Longrightarrow> \<exists>l rs' lg'. run_loop E a rs lg = Some l
           \<and> results l = rs @ rs' \<and> logged l = lg @ lg'
           \<and> list_all (within_budget (max_steps a)) lg'
           \<and> length (filter is_step_line lg') \<le> nat (max_steps a - current_step a)
           \<and> length rs' \<le> nat (max_steps a - current_step a)
           \<and> max_steps (agent_after l) = max_steps a
           \<and> current_step a \<le> current_step (agent_after l)
           \<and> current_step (agent_after l) \<le> max (current_step a) (max_steps a)"
proof (induction "nat (max_steps a - current_step a)" arbitrary: a rs lg)
  case 0
  then have "\<not> current_step a < max_steps a" by simp
  then show ?case by (subst run_loop.simps) simp
next
  case (Suc n)
  let ?a1 = "a\<lparr>current_step := current_step a + 1\<rparr>"
  let ?lg1 = "lg @ [Log_step (current_step a + 1) (max_steps a)]"
  have lt: "current_step a < max_steps a" using Suc.hyps(2) by simp
  show ?case
  proof (cases "state a \<noteq> FINISHED \<and> \<not> cancelled a")
    case False
    then show ?thesis by (subst run_loop.simps) auto
  next
    case True
    show ?thesis
    proof (cases "step E ?a1")
      case (Step_raises e b)
      with K have "current_step b = current_step a + 1" "max_steps b = max_steps a"
        by (auto simp: keeps_counters_def)
      with True lt Step_raises Suc.prems show ?thesis
        by (subst run_loop.simps) (simp add: within_budget_def is_step_line_def)
    next
      case (Step_returns r b)
      let ?a3 = "after_stuck_check E b"
      from K Step_returns have c3: "current_step ?a3 = current_step a + 1"
        and m3: "max_steps ?a3 = max_steps a"
        by (auto simp: keeps_counters_def)
      show ?thesis
      proof (cases "cancelled ?a3")
        case c: True
        with True lt Step_returns c3 m3 Suc.prems show ?thesis
          by (subst run_loop.simps) (simp add: within_budget_def is_step_line_def)
      next
        case c: False
        have n: "n = nat (max_steps ?a3 - current_step ?a3)" using Suc.hyps(2) c3 m3 by simp
        have p: "0 \<le> current_step ?a3" using c3 Suc.prems by simp
        from Suc.hyps(1) [OF n p, of "rs @ [r]" ?lg1]
        obtain l rs' lg' where l: "run_loop E ?a3 (rs @ [r]) ?lg1 = Some l"
          "results l = (rs @ [r]) @ rs'" "logged l = ?lg1 @ lg'"
          "list_all (within_budget (max_steps ?a3)) lg'"
          "length (filter is_step_line lg') \<le> nat (max_steps ?a3 - current_step ?a3)"
          "length rs' \<le> nat (max_steps ?a3 - current_step ?a3)"
          "max_steps (agent_after l) = max_steps ?a3"
          "current_step ?a3 \<le> current_step (agent_after l)"
          "current_step (agent_after l) \<le> max (current_step ?a3) (max_steps ?a3)"
          by blast
        have "run_loop E a rs lg = Some l"
          using True lt Step_returns c l(1) by (subst run_loop.simps) simp
        moreover have "results l = rs @ (r # rs')" using l(2) by simp
        moreover have "logged l = lg @ (Log_step (current_step a + 1) (max_steps a) # lg')"
          using l(3) by simp
        moreover have "list_all (within_budget (max_steps a))
            (Log_step (current_step a + 1) (max_steps a) # lg')"
          using l(4) lt m3 Suc.prems by (simp add: within_budget_def)
        moreover have "length (filter is_step_line
            (Log_step (current_step a + 1) (max_steps a) # lg'))
              \<le> nat (max_steps a - current_step a)"
          using l(5) c3 m3 lt by (simp add: is_step_line_def)
        moreover have "length (r # rs') \<le> nat (max_steps a - current_step a)"
          using l(6) c3 m3 lt by simp
        ultimately show ?thesis using l(7,8,9) c3 m3 lt by (intro exI conjI) auto
      qed
    qed
  qed
qed

lemma run_loop_exhausts:
  assumes K: "keeps_counters E" and N: "never_terminal E"
  shows "state a \<noteq> FINISHED \<Longrightarrow> \<not> cancelled a \<Longrightarrow> current_step a \<le> max_steps a \<Longrightarrow>
         \<exists>l rs'. run_loop E a rs lg = Some l
           \<and> raised_by_step l = None
           \<and> results l = rs @ rs' \<and> int (length rs') = max_steps a - current_step a
           \<and> logged l = lg @ step_lines (current_step a) (max_steps a)
           \<and> current_step (agent_after l) = max_steps a
           \<and> \<not> cancelled (agent_after l)"
proof (induction "nat (max_steps a - current_step a)" arbitrary: a rs lg)
  case 0
  then have "current_step a = max_steps a" by simp
  with 0 show ?case by (subst run_loop.simps) (simp add: step_lines_def)
next
  case (Suc n)
  let ?a1 = "a\<lparr>current_step := current_step a + 1\<rparr>"
  let ?lg1 = "lg @ [Log_step (current_step a + 1) (max_steps a)]"
  have lt: "current_step a < max_steps a" using Suc.hyps(2) by simp
  have "state ?a1 \<noteq> FINISHED \<and> \<not> cancelled ?a1" using Suc.prems by simp
  with N obtain r b where st: "step E ?a1 = Step_returns r b"
    and nt: "state (after_stuck_check E b) \<noteq> FINISHED" "\<not> cancelled (after_stuck_check E b)"
    unfolding never_terminal_def by blast
  let ?a3 = "after_stuck_check E b"
  from K st have c3: "current_step ?a3 = current_step a + 1" and m3: "max_steps ?a3 = max_steps a"
    by (auto simp: keeps_counters_def)
  have n: "n = nat (max_steps ?a3 - current_step ?a3)" using Suc.hyps(2) c3 m3 by simp
  have le: "current_step ?a3 \<le> max_steps ?a3" using c3 m3 lt by simp
  from Suc.hyps(1) [OF n nt le, of "rs @ [r]" ?lg1]
  obtain l rs' where l: "run_loop E ?a3 (rs @ [r]) ?lg1 = Some l" "raised_by_step l = None"
    "results l = (rs @ [r]) @ rs'" "int (length rs') = max_steps ?a3 - current_step ?a3"
    "logged l = ?lg1 @ step_lines (current_step ?a3) (max_steps ?a3)"
    "current_step (agent_after l) = max_steps ?a3" "\<not> cancelled (agent_after l)"
    by blast
  have run: "run_loop E a rs lg = Some l"
    using Suc.prems lt st nt l(1) by (subst run_loop.simps) simp
  have lines: "step_lines (current_step a) (max_steps a)
      = Log_step (current_step a + 1) (max_steps a) # step_lines (current_step a + 1) (max_steps a)"
    using lt by (simp add: step_lines_def upto_rec1 [of "current_step a + 1"])
  show ?case
    using run l(2-7) c3 m3 lines by (intro exI [of _ l] exI [of _ "r # rs'"]) simp
qed

subsection \<open>From the loop to the run\<close>

lemma try_body_loop_entry:
  "try_body E prompt (a\<lparr>cancelled := False, cancel_attrs := True\<rparr>)
     = loop_then_return E (state a) (loop_entry prompt a) [] []"
  by (simp add: try_body_def loop_entry_def Let_def state_context_enter_def)

lemma run_via_loop:
  "mcp_clients a \<noteq> None \<Longrightarrow> run_loop E (loop_entry prompt a) [] [] = Some l \<Longrightarrow>
     run E prompt a = Some (run_finally (run_except (after_loop E (state a) l)))"
  by (auto simp: run_def try_body_loop_entry loop_then_return_def)

lemma run_loop_fuel:
  assumes K: "keeps_counters E"
  shows "run_loop E a rs lg
           = Some (loop_with_fuel E (nat (max_steps a - current_step a)) a rs lg)"
proof (induction "nat (max_steps a - current_step a)" arbitrary: a rs lg)
  case 0
  then have "\<not> current_step a < max_steps a" by simp
  with 0 show ?case by (subst run_loop.simps) simp
next
  case (Suc n)
  let ?a1 = "a\<lparr>current_step := current_step a + 1\<rparr>"
  have lt: "current_step a < max_steps a" using Suc.hyps(2) by simp
  have fuel: "nat (max_steps a - current_step a) = Suc n" using Suc.hyps(2) by simp
  show ?case
  proof (cases "step E ?a1")
    case (Step_raises e b)
    then show ?thesis unfolding fuel by (subst run_loop.simps) (simp add: Let_def)
  next
    case (Step_returns r b)
    let ?a3 = "after_stuck_check E b"
    from K Step_returns have "current_step ?a3 = current_step a + 1" "max_steps ?a3 = max_steps a"
      by (auto simp: keeps_counters_def)
    then have n: "n = nat (max_steps ?a3 - current_step ?a3)" using Suc.hyps(2) by simp
    from Suc.hyps(1) [OF n]
    have "run_loop E ?a3 (rs @ [r]) (lg @ [Log_step (current_step a + 1) (max_steps a)])
        = Some (loop_with_fuel E n ?a3 (rs @ [r]) (lg @ [Log_step (current_step a + 1) (max_steps a)]))"
      using n by simp
    with Step_returns show ?thesis unfolding fuel by (subst run_loop.simps) (simp add: Let_def)
  qed
qed

lemma run_fuel_lemma:
  assumes K: "keeps_counters E" and c: "mcp_clients a \<noteq> None"
  shows "run E prompt a
     = Some (run_finally (run_except (after_loop E (state a)
          (loop_with_fuel E (nat (max_steps a)) (loop_entry prompt a) [] []))))"
proof -
  have "run_loop E (loop_entry prompt a) [] []
      = Some (loop_with_fuel E (nat (max_steps a)) (loop_entry prompt a) [] [])"
    using run_loop_fuel [OF K, of "loop_entry prompt a" "[]" "[]"]
    by (simp add: loop_entry_def state_context_enter_def)
  from run_via_loop [OF c this] show ?thesis .
qed

lemma run_budget_lemma:
  assumes K: "keeps_counters E" and c: "mcp_clients a \<noteq> None"
  shows "\<exists>r. run E prompt a = Some r
     \<and> list_all (within_budget (max_steps a)) (run_log r)
     \<and> length (filter is_step_line (run_log r)) \<le> nat (max_steps a)
     \<and> length (step_results r) \<le> nat (max_steps a)
     \<and> max_steps (final r) = max_steps a
     \<and> 0 \<le> current_step (final r) \<and> current_step (final r) \<le> max 0 (max_steps a)"
proof -
  let ?a0 = "loop_entry prompt a"
  have e: "current_step ?a0 = 0" "max_steps ?a0 = max_steps a"
    by (simp_all add: loop_entry_def state_context_enter_def)
  from run_loop_ends [OF K, of ?a0 "[]" "[]"] e
  obtain l lg' where l: "run_loop E ?a0 [] [] = Some l" "logged l = lg'"
    "list_all (within_budget (max_steps a)) lg'"
    "length (filter is_step_line lg') \<le> nat (max_steps a)"
    "length (results l) \<le> nat (max_steps a)"
    "max_steps (agent_after l) = max_steps a"
    "0 \<le> current_step (agent_after l)"
    "current_step (agent_after l) \<le> max 0 (max_steps a)"
    by auto
  let ?r = "run_finally (run_except (after_loop E (state a) l))"
  have r: "run E prompt a = Some ?r" using run_via_loop [OF c l(1)] .
  have lg: "run_log ?r = lg' \<or> (\<exists>msg. run_log ?r = lg' @ [Log_error_running msg])"
    using l(2) by (auto simp: run_finally_def run_except_def after_loop_def Let_def
        split: run_outcome.splits raised.splits option.splits)
  have fin: "max_steps (final ?r) = max_steps (agent_after l)"
    "current_step (final ?r) = current_step (agent_after l)"
    "step_results ?r = results l"
    by (auto simp: run_finally_def run_except_def after_loop_def Let_def state_context_exit_def
        split: run_outcome.splits raised.splits option.splits)
  from lg l(3,4) have "list_all (within_budget (max_steps a)) (run_log ?r)
      \<and> length (filter is_step_line (run_log ?r)) \<le> nat (max_steps a)"
    by (auto simp: within_budget_def is_step_line_def)
  with r fin l(5,6,7,8) show ?thesis by auto
qed

lemma run_exhausts_lemma:
  assumes K: "keeps_counters E" and N: "never_terminal E"
    and m: "0 \<le> max_steps a" and c: "mcp_clients a \<noteq> None"
  shows "\<exists>r. run E prompt a = Some r
     \<and> finished_normally (outcome r)
     \<and> int (length (step_results r)) = max_steps a
     \<and> run_log r = step_lines 0 (max_steps a)
     \<and> current_step (final r) = max_steps a"
proof -
  let ?a0 = "loop_entry prompt a"
  have e: "current_step ?a0 = 0" "max_steps ?a0 = max_steps a" "state ?a0 \<noteq> FINISHED"
    "\<not> cancelled ?a0"
    by (simp_all add: loop_entry_def state_context_enter_def)
  from run_loop_exhausts [OF K N, of ?a0 "[]" "[]"] e m
  obtain l where l: "run_loop E ?a0 [] [] = Some l" "raised_by_step l = None"
    "int (length (results l)) = max_steps a" "logged l = step_lines 0 (max_steps a)"
    "current_step (agent_after l) = max_steps a" "\<not> cancelled (agent_after l)"
    by auto
  let ?r = "run_finally (run_except (after_loop E (state a) l))"
  have r: "run E prompt a = Some ?r" using run_via_loop [OF c l(1)] .
  have "finished_normally (outcome ?r) \<and> step_results ?r = results l \<and> run_log ?r = logged l
      \<and> current_step (final ?r) = current_step (agent_after l)"
    using l(2,6)
    by (auto simp: run_finally_def run_except_def after_loop_def Let_def state_context_exit_def
        finished_normally_def split: option.splits)
  with r l(3,4,5) show ?thesis by auto
qed

subsection \<open>The step budget\<close>

lemma keeps_counters_externals0: "keeps_counters externals0"
  by (simp add: keeps_counters_def externals0_def after_stuck_check_def)

lemma never_terminal_externals0: "never_terminal externals0"
  by (simp add: never_terminal_def externals0_def after_stuck_check_def)

lemma keeps_counters_marking: "keeps_counters externals_marking"
  by (simp add: keeps_counters_def externals_marking_def externals0_def after_stuck_check_def)

lemma never_terminal_marking: "never_terminal externals_marking"
  by (simp add: never_terminal_def externals_marking_def externals0_def after_stuck_check_def)

lemma run_exhausts_any_budget:
  assumes K: "keeps_counters E" and N: "never_terminal E" and c: "mcp_clients a \<noteq> None"
  shows "\<exists>r. run E prompt a = Some r
     \<and> finished_normally (outcome r)
     \<and> length (step_results r) = nat (max_steps a)
     \<and> run_log r = step_lines 0 (max_steps a)
     \<and> current_step (final r) = max 0 (max_steps a)"
proof (cases "0 \<le> max_steps a")
  case True
  from run_exhausts_lemma [OF K N True c, of prompt] True show ?thesis
    by (auto simp: max_def)
next
  case False
  let ?a0 = "loop_entry prompt a"
  have e: "current_step ?a0 = 0" "max_steps ?a0 = max_steps a" "\<not> cancelled ?a0"
    by (simp_all add: loop_entry_def state_context_enter_def)
  have "run_loop E ?a0 [] []
      = Some \<lparr>raised_by_step = None, agent_after = ?a0, results = [], logged = []\<rparr>"
    using False e by (subst run_loop.simps) simp
  from run_via_loop [OF c this] False e show ?thesis
    by (auto simp: run_finally_def run_except_def after_loop_def Let_def state_context_exit_def
        finished_normally_def step_lines_def split: option.splits)
qed

lemma fuel_marking:
  "run_finally (run_except (after_loop externals_marking (state agent0)
      (loop_with_fuel externals_marking (nat (max_steps agent0)) (loop_entry ''hello'' agent0) [] [])))
   = run_end_marking"
  by code_simp

text \<open>
  Claim C2, as amended. Let the inherited methods leave the counters alone. Then
  \<^verbatim>\<open>run\<close> returns, and what it returns is what the loop gives when it is unrolled
  \<^verbatim>\<open>max_steps\<close> times (no time for a negative \<^verbatim>\<open>max_steps\<close>): each turn of the loop
  that passes the test adds one to \<^verbatim>\<open>current_step\<close>, logs the step and calls \<^verbatim>\<open>step\<close>.
  Every step started has a number from 1 to \<^verbatim>\<open>max_steps\<close>, at most \<^verbatim>\<open>max_steps\<close>
  steps are started and at most as many results collected, \<^verbatim>\<open>max_steps\<close> is not
  changed, and at the end \<^verbatim>\<open>current_step\<close> does not exceed the larger of 0 and
  \<^verbatim>\<open>max_steps\<close>. When every step returns a non-terminal result, the run calls
  \<^verbatim>\<open>step\<close> exactly \<^verbatim>\<open>max_steps\<close> times (never for a negative budget), the steps are
  numbered 1 to \<^verbatim>\<open>max_steps\<close>, and the run ends with one of the ordinary responses:
  neither the text of a cancellation nor that of a failure, and no exception.
\<close>

theorem step_budget:
  fixes E :: "'s externals" and a :: "'s agent" and prompt :: string
  defines "r \<equiv> run_finally (run_except (after_loop E (state a)
                 (loop_with_fuel E (nat (max_steps a)) (loop_entry prompt a) [] [])))"
  assumes "keeps_counters E" and "mcp_clients a \<noteq> None"
  shows "run E prompt a = Some r
     \<and> list_all (within_budget (max_steps a)) (run_log r)
     \<and> length (filter is_step_line (run_log r)) \<le> nat (max_steps a)
     \<and> length (step_results r) \<le> nat (max_steps a)
     \<and> max_steps (final r) = max_steps a
     \<and> current_step (final r) \<le> max 0 (max_steps a)
     \<and> (never_terminal E \<longrightarrow>
           finished_normally (outcome r)
         \<and> length (step_results r) = nat (max_steps a)
         \<and> run_log r = step_lines 0 (max_steps a)
         \<and> current_step (final r) = max 0 (max_steps a))"
proof -
  have run: "run E prompt a = Some r"
    unfolding r_def using run_fuel_lemma [OF assms(2,3)] .
  from run_budget_lemma [OF assms(2,3), of prompt] run
  have b: "list_all (within_budget (max_steps a)) (run_log r)"
    "length (filter is_step_line (run_log r)) \<le> nat (max_steps a)"
    "length (step_results r) \<le> nat (max_steps a)"
    "max_steps (final r) = max_steps a"
    "current_step (final r) \<le> max 0 (max_steps a)"
    by auto
  have "never_terminal E \<longrightarrow>
           finished_normally (outcome r)
         \<and> length (step_results r) = nat (max_steps a)
         \<and> run_log r = step_lines 0 (max_steps a)
         \<and> current_step (final r) = max 0 (max_steps a)"
    using run_exhausts_any_budget [OF assms(2) _ assms(3), of prompt] run by auto
  with run b show ?thesis by blast
qed

text \<open>
  Claim C2 as stated fails for a negative step budget: \<^verbatim>\<open>run\<close> resets \<^verbatim>\<open>current_step\<close>
  to 0 whatever \<^verbatim>\<open>max_steps\<close> is, so that with \<^verbatim>\<open>max_steps = -1\<close> the run ends, without
  a step, with a counter above the budget.
\<close>

theorem negative_budget_exceeded:
  "run externals0 ''hello'' agent_negative_budget = Some run_end_negative_budget
   \<and> current_step (final run_end_negative_budget) = 0
   \<and> max_steps (final run_end_negative_budget) = - 1
   \<and> max_steps (final run_end_negative_budget) < current_step (final run_end_negative_budget)"
proof -
  have c: "mcp_clients agent_negative_budget \<noteq> None"
    by (simp add: agent_negative_budget_def agent0_def)
  have "run_loop externals0 (loop_entry ''hello'' agent_negative_budget) [] []
      = Some \<lparr>raised_by_step = None, agent_after = loop_entry ''hello'' agent_negative_budget,
               results = [], logged = []\<rparr>"
    by (subst run_loop.simps)
       (simp add: loop_entry_def state_context_enter_def agent_negative_budget_def agent0_def)
  from run_via_loop [OF c this]
  have "run externals0 ''hello'' agent_negative_budget = Some run_end_negative_budget"
    by (simp add: run_finally_def run_except_def after_loop_def Let_def state_context_exit_def
        run_end_negative_budget_def loop_entry_def state_context_enter_def
        agent_negative_budget_def agent0_def externals0_def)
  then show ?thesis
    by (simp add: run_end_negative_budget_def agent_negative_budget_def agent0_def)
qed

text \<open>
  With \<^verbatim>\<open>max_steps = 3\<close> and steps that always return a non-terminal result, the run
  calls \<^verbatim>\<open>step\<close> three times (each call has left its mark) and then ends with a
  response.
\<close>

theorem step_budget_witness:
  "keeps_counters externals_marking \<and> mcp_clients agent0 \<noteq> None
   \<and> never_terminal externals_marking \<and> max_steps agent0 = 3
   \<and> run externals_marking ''hello'' agent0 = Some run_end_marking
   \<and> list_all (within_budget 3) (run_log run_end_marking)
   \<and> length (step_results run_end_marking) = 3
   \<and> run_log run_end_marking = step_lines 0 3
   \<and> current_step (final run_end_marking) = 3
   \<and> max_steps (final run_end_marking) = 3
   \<and> finished_normally (outcome run_end_marking)"
proof -
  have h1: "keeps_counters externals_marking" by (rule keeps_counters_marking)
  have h2: "mcp_clients agent0 \<noteq> None" by (simp add: agent0_def)
  have h3: "never_terminal externals_marking" by (rule never_terminal_marking)
  have m: "max_steps agent0 = 3" by (simp add: agent0_def)
  have e: "list_all (within_budget 3) (run_log run_end_marking)"
    "length (step_results run_end_marking) = 3"
    "run_log run_end_marking = step_lines 0 3"
    "current_step (final run_end_marking) = 3"
    "max_steps (final run_end_marking) = 3"
    "finished_normally (outcome run_end_marking)"
    by code_simp+
  note T = step_budget [OF h1 h2, of "''hello''", unfolded fuel_marking]
  from T have "run externals_marking ''hello'' agent0 = Some run_end_marking" by (rule conjunct1)
  with h1 h2 h3 m e show ?thesis by blast
qed

subsection \<open>Cancellation\<close>



subsection \<open>Exceptions of a step\<close>

lemma run_loop_logs_no_error:
  assumes "run_loop E a rs lg = Some l"
  shows "\<exists>lg'. logged l = lg @ lg' \<and> filter is_error_line lg' = []"
proof (induct E a rs lg l rule: run_loop.raw_induct)
  case (1 loop E a rs lg l)
  show ?case
  proof (cases "current_step a < max_steps a \<and> state a \<noteq> FINISHED \<and> \<not> cancelled a")
    case False
    with 1(2) show ?thesis by auto
  next
    case True
    let ?a1 = "a\<lparr>current_step := current_step a + 1\<rparr>"
    let ?lg1 = "lg @ [Log_step (current_step a + 1) (max_steps a)]"
    show ?thesis
    proof (cases "step E ?a1")
      case (Step_raises e b)
      with True 1(2) show ?thesis by (auto simp: is_error_line_def)
    next
      case (Step_returns r b)
      show ?thesis
      proof (cases "cancelled (after_stuck_check E b)")
        case c: True
        with True Step_returns 1(2) show ?thesis by (auto simp: is_error_line_def)
      next
        case c: False
        from 1(2) True Step_returns c
        have "loop E (after_stuck_check E b) (rs @ [r]) ?lg1 = Some l"
          by simp
        from 1(1) [OF this]
        obtain lg' where "logged l = ?lg1 @ lg'" "filter is_error_line lg' = []"
          by blast
        then have "logged l = lg @ (Log_step (current_step a + 1) (max_steps a) # lg')
            \<and> filter is_error_line (Log_step (current_step a + 1) (max_steps a) # lg') = []"
          by (simp add: is_error_line_def)
        then show ?thesis by blast
      qed
    qed
  qed
qed (rule assms)

lemma run_loop_failing:
  "run_loop externals_failing (loop_entry ''hello'' agent0) [] [] = Some loop_end_failing"
  by code_simp

lemma loop_entry_fresh:
  "state (loop_entry prompt a) = RUNNING \<and> \<not> cancelled (loop_entry prompt a)
   \<and> current_step (loop_entry prompt a) = 0
   \<and> max_steps (loop_entry prompt a) = max_steps a"
  by (simp add: loop_entry_def state_context_enter_def)

lemma again_after_failure:
  "outcome (run_finally (run_except (after_loop externals0 (state agent0)
      (loop_with_fuel externals0 (nat (max_steps (agent_after loop_end_failing)))
         (loop_entry ''again''
            ((agent_after loop_end_failing)\<lparr>state := state agent0, cancel_attrs := False\<rparr>))
         [] []))))
   = Run_returns (Joined_results [''ok'', ''ok'', ''ok''])"
  by code_simp

text \<open>
  Claim C8, as amended. When an exception leaves \<^verbatim>\<open>step\<close> during a run, the loop
  ends there. An \<^verbatim>\<open>Exception\<close> is caught by the handler of \<^verbatim>\<open>run\<close>: it is logged
  once, and \<^verbatim>\<open>run\<close> raises nothing and returns the text that the execution failed,
  with the exception's message. (\<^verbatim>\<open>asyncio.CancelledError\<close> is not an
  \<^verbatim>\<open>Exception\<close>: it is not logged and leaves \<^verbatim>\<open>run\<close>, and
  \<^verbatim>\<open>process_agent_response\<close> then returns nothing and sends nothing more.) The agent
  keeps what the failing step left, with the state it had before the run and without
  the two cancellation attributes. A further run on it, when it is still initialised
  and its steps leave the counters alone, returns, and enters its loop afresh: in the
  state \<^verbatim>\<open>RUNNING\<close>, with the flag cleared and the counter at 0.
  \<^verbatim>\<open>process_agent_response\<close> sends no message of type \<^verbatim>\<open>error\<close> for the failure.
  What it sends after the announcement depends on the client's cancel flag after the
  run: with the flag unset, the text returned reaches the client once, as the content
  of a message of type \<^verbatim>\<open>response\<close>, and is returned in the record; with the flag
  set meanwhile the client is told instead that the task was terminated; with the
  flag deleted meanwhile nothing more is sent and the \<^verbatim>\<open>KeyError\<close> of the lookup is
  raised. In every case the client's task entry is removed.
\<close>

theorem step_exception_returned:
  fixes E E' :: "'s externals" and a :: "'s agent" and during :: "tables \<Rightarrow> tables"
  assumes "mcp_clients a \<noteq> None"
    and "run_loop E (loop_entry prompt a) [] [] = Some l"
    and "raised_by_step l = Some x"
  shows "\<exists>r. run E prompt a = Some r
     \<and> outcome r = (case x of Exception msg \<Rightarrow> Run_returns (Execution_failed msg)
                             | CancelledError \<Rightarrow> Run_raises CancelledError)
     \<and> filter is_error_line (run_log r)
          = (case x of Exception msg \<Rightarrow> [Log_error_running msg] | CancelledError \<Rightarrow> [])
     \<and> final r = (agent_after l)\<lparr>state := state a, cancel_attrs := False\<rparr>
     \<and> (keeps_counters E' \<and> mcp_clients (agent_after l) \<noteq> None \<longrightarrow>
          run E' prompt' (final r)
            = Some (run_finally (run_except (after_loop E' (state a)
                 (loop_with_fuel E' (nat (max_steps (agent_after l)))
                    (loop_entry prompt' (final r)) [] []))))
          \<and> state (loop_entry prompt' (final r)) = RUNNING
          \<and> \<not> cancelled (loop_entry prompt' (final r))
          \<and> current_step (loop_entry prompt' (final r)) = 0)
     \<and> sent (process_agent_response during (outcome r) steps prompt task client T)
          = System_event Processing_request #
            (case x of
               Exception msg \<Rightarrow>
                 (case map_of (cancel_flags (during (register_task client task T))) client of
                    Some False \<Rightarrow> [Response_event (Execution_failed msg)]
                  | Some True \<Rightarrow> [System_event Task_was_terminated]
                  | None \<Rightarrow> [])
             | CancelledError \<Rightarrow> [])
     \<and> filter is_error_event
          (sent (process_agent_response during (outcome r) steps prompt task client T)) = []
     \<and> handler_result (process_agent_response during (outcome r) steps prompt task client T)
          = (case x of
               Exception msg \<Rightarrow>
                 (case map_of (cancel_flags (during (register_task client task T))) client of
                    Some False \<Rightarrow>
                      Handler_returns (Some \<lparr>of_prompt = prompt, response = Execution_failed msg,
                                               thinking_steps = steps\<rparr>)
                  | Some True \<Rightarrow> Handler_returns None
                  | None \<Rightarrow> Handler_raises (Exception (key_error_text client)))
             | CancelledError \<Rightarrow> Handler_returns None)
     \<and> client \<notin> dict_keys (active_tasks
          (tables_after (process_agent_response during (outcome r) steps prompt task client T)))"
proof -
  let ?r = "run_finally (run_except (after_loop E (state a) l))"
  let ?H = "process_agent_response during (outcome ?r) steps prompt task client T"
  have r: "run E prompt a = Some ?r" using run_via_loop [OF assms(1,2)] .
  from run_loop_logs_no_error [OF assms(2)]
  have lg: "filter is_error_line (logged l) = []" by auto
  have o: "outcome ?r = (case x of Exception msg \<Rightarrow> Run_returns (Execution_failed msg)
                             | CancelledError \<Rightarrow> Run_raises CancelledError)"
    using assms(3)
    by (simp add: run_finally_def run_except_def after_loop_def Let_def split: raised.splits)
  have e: "filter is_error_line (run_log ?r)
      = (case x of Exception msg \<Rightarrow> [Log_error_running msg] | CancelledError \<Rightarrow> [])"
    using assms(3) lg
    by (simp add: run_finally_def run_except_def after_loop_def Let_def is_error_line_def
        split: raised.splits)
  have f: "final ?r = (agent_after l)\<lparr>state := state a, cancel_attrs := False\<rparr>"
    using assms(3)
    by (simp add: run_finally_def run_except_def after_loop_def Let_def state_context_exit_def
        split: raised.splits)
  have n: "keeps_counters E' \<and> mcp_clients (agent_after l) \<noteq> None \<longrightarrow>
          run E' prompt' (final ?r)
            = Some (run_finally (run_except (after_loop E' (state a)
                 (loop_with_fuel E' (nat (max_steps (agent_after l)))
                    (loop_entry prompt' (final ?r)) [] []))))
          \<and> state (loop_entry prompt' (final ?r)) = RUNNING
          \<and> \<not> cancelled (loop_entry prompt' (final ?r))
          \<and> current_step (loop_entry prompt' (final ?r)) = 0"
  proof (intro impI, elim conjE)
    assume K: "keeps_counters E'" and c: "mcp_clients (agent_after l) \<noteq> None"
    from c have c': "mcp_clients (final ?r) \<noteq> None" unfolding f by simp
    from run_fuel_lemma [OF K c', of prompt'] loop_entry_fresh [of prompt' "final ?r"]
    show "run E' prompt' (final ?r)
            = Some (run_finally (run_except (after_loop E' (state a)
                 (loop_with_fuel E' (nat (max_steps (agent_after l)))
                    (loop_entry prompt' (final ?r)) [] []))))
          \<and> state (loop_entry prompt' (final ?r)) = RUNNING
          \<and> \<not> cancelled (loop_entry prompt' (final ?r))
          \<and> current_step (loop_entry prompt' (final ?r)) = 0"
      unfolding f by simp
  qed
  have s: "sent ?H = System_event Processing_request #
            (case x of
               Exception msg \<Rightarrow>
                 (case map_of (cancel_flags (during (register_task client task T))) client of
                    Some False \<Rightarrow> [Response_event (Execution_failed msg)]
                  | Some True \<Rightarrow> [System_event Task_was_terminated]
                  | None \<Rightarrow> [])
             | CancelledError \<Rightarrow> [])"
    unfolding o
    by (simp add: process_agent_response_def Let_def split_beta
        split: raised.splits option.splits bool.splits)
  have ne: "filter is_error_event (sent ?H) = []"
    unfolding s
    by (simp add: is_error_event_def split: raised.splits option.splits bool.splits)
  have h: "handler_result ?H
          = (case x of
               Exception msg \<Rightarrow>
                 (case map_of (cancel_flags (during (register_task client task T))) client of
                    Some False \<Rightarrow>
                      Handler_returns (Some \<lparr>of_prompt = prompt, response = Execution_failed msg,
                                               thinking_steps = steps\<rparr>)
                  | Some True \<Rightarrow> Handler_returns None
                  | None \<Rightarrow> Handler_raises (Exception (key_error_text client)))
             | CancelledError \<Rightarrow> Handler_returns None)"
    unfolding o
    by (simp add: process_agent_response_def Let_def split_beta
        split: raised.splits option.splits bool.splits)
  have t: "client \<notin> dict_keys (active_tasks (tables_after ?H))"
    by (simp add: process_agent_response_def Let_def split_beta release_task_def dict_keys_def
        delete_notin_dom)
  from r o e f n s ne h t show ?thesis by blast
qed

text \<open>
  Claim C8 as stated fails: for a step that raises, the messages sent for the run
  hold no message of type \<^verbatim>\<open>error\<close>.
\<close>

theorem step_exception_no_error_event:
  "map_option outcome (run externals_failing ''hello'' agent0)
     = Some (Run_returns (Execution_failed ''boom''))
   \<and> sent (process_agent_response id (Run_returns (Execution_failed ''boom'')) []
            ''hello'' 1 ''client'' tables0)
     = [System_event Processing_request, Response_event (Execution_failed ''boom'')]
   \<and> length (filter is_error_event
        (sent (process_agent_response id (Run_returns (Execution_failed ''boom'')) []
            ''hello'' 1 ''client'' tables0))) = 0"
proof -
  have "mcp_clients agent0 \<noteq> None" by (simp add: agent0_def)
  from run_via_loop [OF this run_loop_failing]
  have "map_option outcome (run externals_failing ''hello'' agent0)
     = Some (Run_returns (Execution_failed ''boom''))"
    by (simp add: run_finally_def run_except_def after_loop_def Let_def loop_end_failing_def)
  moreover have "sent (process_agent_response id (Run_returns (Execution_failed ''boom'')) []
            ''hello'' 1 ''client'' tables0)
     = [System_event Processing_request, Response_event (Execution_failed ''boom'')]"
    by (simp add: process_agent_response_def register_task_def tables0_def Let_def)
  ultimately show ?thesis by (simp add: is_error_event_def)
qed

theorem step_exception_returned_witness:
  "mcp_clients agent0 \<noteq> None
   \<and> run_loop externals_failing (loop_entry ''hello'' agent0) [] [] = Some loop_end_failing
   \<and> raised_by_step loop_end_failing = Some (Exception ''boom'')
   \<and> keeps_counters externals0 \<and> mcp_clients (agent_after loop_end_failing) \<noteq> None
   \<and> (\<exists>r. run externals_failing ''hello'' agent0 = Some r
        \<and> outcome r = Run_returns (Execution_failed ''boom'')
        \<and> filter is_error_line (run_log r) = [Log_error_running ''boom'']
        \<and> state (final r) = IDLE \<and> \<not> cancel_attrs (final r)
        \<and> map_option outcome (run externals0 ''again'' (final r))
             = Some (Run_returns (Joined_results [''ok'', ''ok'', ''ok'']))
        \<and> sent (process_agent_response id (outcome r) [] ''hello'' 1 ''client'' tables0)
             = [System_event Processing_request, Response_event (Execution_failed ''boom'')]
        \<and> handler_result (process_agent_response id (outcome r) [] ''hello'' 1 ''client'' tables0)
             = Handler_returns (Some \<lparr>of_prompt = ''hello'', response = Execution_failed ''boom'',
                                       thinking_steps = []\<rparr>)
        \<and> ''client'' \<notin> dict_keys (active_tasks (tables_after
             (process_agent_response id (outcome r) [] ''hello'' 1 ''client'' tables0))))"
proof -
  have h1: "mcp_clients agent0 \<noteq> None" by (simp add: agent0_def)
  have h3: "raised_by_step loop_end_failing = Some (Exception ''boom'')"
    by (simp add: loop_end_failing_def)
  have h4: "keeps_counters externals0" by (rule keeps_counters_externals0)
  have h5: "mcp_clients (agent_after loop_end_failing) \<noteq> None"
    by (simp add: loop_end_failing_def loop_entry_def state_context_enter_def agent0_def)
  have h6: "map_of (cancel_flags (id (register_task ''client'' 1 tables0))) ''client'' = Some False"
    by (simp add: register_task_def tables0_def)
  from step_exception_returned [OF h1 run_loop_failing h3, of externals0 "''again''" id "[]" 1
      "''client''" tables0]
  obtain r where r0: "run externals_failing ''hello'' agent0 = Some r"
    "outcome r = (case Exception ''boom'' of
                    Exception msg \<Rightarrow> Run_returns (Execution_failed msg)
                  | CancelledError \<Rightarrow> Run_raises CancelledError)"
    "filter is_error_line (run_log r)
       = (case Exception ''boom'' of Exception msg \<Rightarrow> [Log_error_running msg]
          | CancelledError \<Rightarrow> [])"
    "final r = (agent_after loop_end_failing)\<lparr>state := state agent0, cancel_attrs := False\<rparr>"
    "keeps_counters externals0 \<and> mcp_clients (agent_after loop_end_failing) \<noteq> None \<longrightarrow>
          run externals0 ''again'' (final r)
            = Some (run_finally (run_except (after_loop externals0 (state agent0)
                 (loop_with_fuel externals0 (nat (max_steps (agent_after loop_end_failing)))
                    (loop_entry ''again'' (final r)) [] []))))
          \<and> state (loop_entry ''again'' (final r)) = RUNNING
          \<and> \<not> cancelled (loop_entry ''again'' (final r))
          \<and> current_step (loop_entry ''again'' (final r)) = 0"
    "sent (process_agent_response id (outcome r) [] ''hello'' 1 ''client'' tables0)
          = System_event Processing_request #
            (case Exception ''boom'' of
               Exception msg \<Rightarrow>
                 (case map_of (cancel_flags (id (register_task ''client'' 1 tables0))) ''client'' of
                    Some False \<Rightarrow> [Response_event (Execution_failed msg)]
                  | Some True \<Rightarrow> [System_event Task_was_terminated]
                  | None \<Rightarrow> [])
             | CancelledError \<Rightarrow> [])"
    "handler_result (process_agent_response id (outcome r) [] ''hello'' 1 ''client'' tables0)
          = (case Exception ''boom'' of
               Exception msg \<Rightarrow>
                 (case map_of (cancel_flags (id (register_task ''client'' 1 tables0))) ''client'' of
                    Some False \<Rightarrow>
                      Handler_returns (Some \<lparr>of_prompt = ''hello'', response = Execution_failed msg,
                                               thinking_steps = []\<rparr>)
                  | Some True \<Rightarrow> Handler_returns None
                  | None \<Rightarrow> Handler_raises (Exception (key_error_text ''client'')))
             | CancelledError \<Rightarrow> Handler_returns None)"
    "''client'' \<notin> dict_keys (active_tasks (tables_after
             (process_agent_response id (outcome r) [] ''hello'' 1 ''client'' tables0)))"
    by blast
  note r = r0 [unfolded h6 raised.case option.case bool.case]
  have f: "state (final r) = IDLE" "\<not> cancel_attrs (final r)"
    unfolding r(4) by (simp_all add: agent0_def)
  from r(5) h4 h5 have "run externals0 ''again'' (final r)
            = Some (run_finally (run_except (after_loop externals0 (state agent0)
                 (loop_with_fuel externals0 (nat (max_steps (agent_after loop_end_failing)))
                    (loop_entry ''again'' (final r)) [] []))))"
    by blast
  then have again: "map_option outcome (run externals0 ''again'' (final r))
             = Some (Run_returns (Joined_results [''ok'', ''ok'', ''ok'']))"
    unfolding r(4) by (simp add: again_after_failure)
  from r(6) have s: "sent (process_agent_response id (outcome r) [] ''hello'' 1 ''client'' tables0)
             = [System_event Processing_request, Response_event (Execution_failed ''boom'')]"
    by simp
  from r(7) have h: "handler_result (process_agent_response id (outcome r) [] ''hello'' 1 ''client'' tables0)
             = Handler_returns (Some \<lparr>of_prompt = ''hello'', response = Execution_failed ''boom'',
                                       thinking_steps = []\<rparr>)"
    by simp
  from h1 run_loop_failing h3 h4 h5 r(1,2,3) f again s h r(8) show ?thesis by blast
qed

subsection \<open>An empty tool list\<close>

text \<open>
  Claim C4 fails on the code. The agent is in its fifth step with a session and two
  tools in \<^verbatim>\<open>mcp_clients.tool_map\<close>, and the server answers the refresh with no tool
  at all. \<^verbatim>\<open>_refresh_tools\<close> empties \<^verbatim>\<open>tool_schemas\<close> and reports both tools as
  removed, but the test that follows reads \<^verbatim>\<open>mcp_clients.tool_map\<close>, which the
  refresh does not write: \<^verbatim>\<open>think\<close> goes on to the parent's \<^verbatim>\<open>think\<close> and the
  state stays \<^verbatim>\<open>RUNNING\<close>.
\<close>

theorem empty_refresh_does_not_finish:
  "think super_think_continues (Inr []) agent_at_refresh =
     (Think_returns True
        (agent_at_refresh\<lparr>tool_schemas := [],
           memory := [Tools_no_longer_available {''a'', ''b''}]\<rparr>),
      [Log_removed {''a'', ''b''}])
   \<and> state agent_at_refresh = RUNNING
   \<and> mcp_clients agent_at_refresh = Some \<lparr>session = True, tool_map = [''a'', ''b'']\<rparr>"
  by (auto simp: think_def refresh_tools_def agent_at_refresh_def agent0_def clients0_def
      super_think_continues_def refresh_tools_interval_def current_tools_of_def Let_def
      added_tools_def removed_tools_def changed_tools_def dict_keys_def)

theorem empty_refresh_does_not_finish_witness:
  "\<exists>b lg. think super_think_continues (Inr []) agent_at_refresh = (Think_returns True b, lg)
     \<and> state b = RUNNING \<and> tool_schemas b = []"
  using empty_refresh_does_not_finish by (simp add: agent_at_refresh_def)

subsection \<open>A failing refresh\<close>

text \<open>
  Claim C6, as amended. When the call of \<^verbatim>\<open>list_tools\<close> raises, \<^verbatim>\<open>_refresh_tools\<close>
  leaves the agent, and so the previous snapshot, unchanged, and the exception leaves
  the method: no difference is returned. \<^verbatim>\<open>think\<close>, when it refreshes, does not catch
  it either and logs nothing. \<^verbatim>\<open>_refresh_tools\<close> returns the empty difference,
  whatever the server would answer, when there is no session.
\<close>

theorem refresh_failure_raises:
  fixes a a' :: "'s agent"
  shows "(mcp_clients a = Some clients \<and> session clients \<longrightarrow>
      refresh_tools (Inl e) a = Refresh_raises e a
    \<and> (tool_map clients \<noteq> [] \<and> current_step a mod refresh_tools_interval = 0 \<longrightarrow>
         think super_think (Inl e) a = (Think_raises e a, [])))
   \<and> (mcp_clients a' = Some clients' \<and> \<not> session clients' \<longrightarrow>
         refresh_tools reply a' = Refresh_returns {} {} a' [])"
proof -
  have raises: "refresh_tools (Inl e) a = Refresh_raises e a"
    if "mcp_clients a = Some clients" "session clients"
    using that by (simp add: refresh_tools_def)
  have passes: "think super_think (Inl e) a = (Think_raises e a, [])"
    if "mcp_clients a = Some clients" "session clients" "tool_map clients \<noteq> []"
      "current_step a mod refresh_tools_interval = 0"
    using that raises by (simp add: think_def)
  have no_session: "refresh_tools reply a' = Refresh_returns {} {} a' []"
    if "mcp_clients a' = Some clients'" "\<not> session clients'"
    using that by (simp add: refresh_tools_def)
  show ?thesis
  proof (intro conjI impI)
    assume h: "mcp_clients a = Some clients \<and> session clients"
    then show "refresh_tools (Inl e) a = Refresh_raises e a" using raises by simp
    assume "tool_map clients \<noteq> [] \<and> current_step a mod refresh_tools_interval = 0"
    with h show "think super_think (Inl e) a = (Think_raises e a, [])" using passes by simp
  next
    assume "mcp_clients a' = Some clients' \<and> \<not> session clients'"
    then show "refresh_tools reply a' = Refresh_returns {} {} a' []" using no_session by simp
  qed
qed

text \<open>
  Claim C6 as stated fails: with a session present, a failing \<^verbatim>\<open>list_tools\<close> makes
  \<^verbatim>\<open>_refresh_tools\<close> raise instead of returning an empty difference, and
  \<^verbatim>\<open>think\<close> raises with it.
\<close>

theorem refresh_failure_no_empty_diff:
  "refresh_tools (Inl (Exception ''connection lost'')) agent_at_refresh
     = Refresh_raises (Exception ''connection lost'') agent_at_refresh
   \<and> refresh_tools (Inl (Exception ''connection lost'')) agent_at_refresh
     \<noteq> Refresh_returns {} {} agent_at_refresh []
   \<and> think super_think_continues (Inl (Exception ''connection lost'')) agent_at_refresh
     = (Think_raises (Exception ''connection lost'') agent_at_refresh, [])"
  by (simp add: refresh_tools_def think_def agent_at_refresh_def agent0_def clients0_def
      refresh_tools_interval_def)

theorem refresh_failure_raises_witness:
  "mcp_clients agent_at_refresh = Some clients0 \<and> session clients0
   \<and> tool_map clients0 \<noteq> [] \<and> current_step agent_at_refresh mod refresh_tools_interval = 0
   \<and> refresh_tools (Inl (Exception ''connection lost'')) agent_at_refresh
        = Refresh_raises (Exception ''connection lost'') agent_at_refresh
   \<and> think super_think_continues (Inl (Exception ''connection lost'')) agent_at_refresh
        = (Think_raises (Exception ''connection lost'') agent_at_refresh, [])
   \<and> mcp_clients (agent0\<lparr>mcp_clients := Some (clients0\<lparr>session := False\<rparr>)\<rparr>)
        = Some (clients0\<lparr>session := False\<rparr>)
   \<and> \<not> session (clients0\<lparr>session := False\<rparr>)
   \<and> refresh_tools (Inr [(''c'', 3)]) (agent0\<lparr>mcp_clients := Some (clients0\<lparr>session := False\<rparr>)\<rparr>)
        = Refresh_returns {} {} (agent0\<lparr>mcp_clients := Some (clients0\<lparr>session := False\<rparr>)\<rparr>) []"
proof -
  have h: "mcp_clients agent_at_refresh = Some clients0" "session clients0"
    "tool_map clients0 \<noteq> []" "current_step agent_at_refresh mod refresh_tools_interval = 0"
    by (simp_all add: agent_at_refresh_def agent0_def clients0_def refresh_tools_interval_def)
  have g: "mcp_clients (agent0\<lparr>mcp_clients := Some (clients0\<lparr>session := False\<rparr>)\<rparr>)
        = Some (clients0\<lparr>session := False\<rparr>)" "\<not> session (clients0\<lparr>session := False\<rparr>)"
    by simp_all
  note T = refresh_failure_raises [where a = agent_at_refresh and clients = clients0
      and e = "Exception ''connection lost''" and super_think = super_think_continues
      and a' = "agent0\<lparr>mcp_clients := Some (clients0\<lparr>session := False\<rparr>)\<rparr>"
      and clients' = "clients0\<lparr>session := False\<rparr>" and reply = "Inr [(''c'', 3)]"]
  from T h g show ?thesis by simp
qed

subsection \<open>The termination tool\<close>

lemma lower_terminate: "lower ''terminate'' = ''terminate''"
  by code_simp

text \<open>
  Claim C7, as amended. \<^verbatim>\<open>_should_finish_execution\<close> holds exactly when the tool's
  name, in lower case, is \<^verbatim>\<open>terminate\<close>. It does not depend on the configured
  list of special tools; for the default list, which holds \<^verbatim>\<open>terminate\<close> only, it
  agrees with the case-insensitive match of the name against the list.
\<close>

theorem should_finish_on_terminate_only:
  "should_finish_execution a name = (lower name = ''terminate'')
   \<and> should_finish_execution (a\<lparr>special_tool_names := names\<rparr>) name
       = should_finish_execution a name
   \<and> (special_tool_names a = default_special_tool_names \<longrightarrow>
        should_finish_execution a name
          = spec_matches_special_tool (special_tool_names a) name)"
  by (auto simp: should_finish_execution_def spec_matches_special_tool_def
      default_special_tool_names_def lower_terminate)

text \<open>
  Claim C7 as stated fails: with the special tools \<^verbatim>\<open>terminate\<close> and \<^verbatim>\<open>finish\<close>
  configured, the name \<^verbatim>\<open>Finish\<close> matches the list but does not finish the
  execution.
\<close>

theorem should_finish_ignores_list:
  "spec_matches_special_tool (special_tool_names agent_two_special) ''Finish''
   \<and> \<not> should_finish_execution agent_two_special ''Finish''"
  unfolding should_finish_execution_def spec_matches_special_tool_def agent_two_special_def
  by code_simp

theorem should_finish_on_terminate_only_witness:
  "special_tool_names agent0 = default_special_tool_names
   \<and> should_finish_execution agent0 ''Terminate''
   \<and> spec_matches_special_tool (special_tool_names agent0) ''Terminate''
   \<and> \<not> should_finish_execution agent0 ''bash''"
proof -
  have h: "special_tool_names agent0 = default_special_tool_names"
    by (simp add: agent0_def default_special_tool_names_def)
  have l: "lower ''Terminate'' = ''terminate''" "lower ''bash'' \<noteq> ''terminate''"
    by code_simp+
  note T1 = should_finish_on_terminate_only [of agent0 "''Terminate''" "[]"]
  note T2 = should_finish_on_terminate_only [of agent0 "''bash''" "[]"]
  from T1 l(1) have a: "should_finish_execution agent0 ''Terminate''" by blast
  from T1 h a have b: "spec_matches_special_tool (special_tool_names agent0) ''Terminate''"
    by blast
  from T2 l(2) have c: "\<not> should_finish_execution agent0 ''bash''" by blast
  from h a b c show ?thesis by blast
qed

subsection \<open>Publishing to the callbacks\<close>

lemma called_in_turn_append:
  "called_in_turn (before @ after) published w =
     called_in_turn before published w
     @ called_in_turn after published (world_after_all before published w)"
  by (induction before arbitrary: w) (simp_all add: world_after_all_def)

lemma logged_before_twice:
  "logged_before lg1 (logged_before lg2 out) = logged_before (lg1 @ lg2) out"
  by (cases out) (simp_all add: logged_before_def)

lemma logged_before_nothing: "logged_before [] out = out"
  by (cases out) (simp_all add: logged_before_def)

lemma notify_thinking_append:
  assumes "list_all caught (called_in_turn before published w)"
  shows "notify_thinking (before @ after) published w =
     logged_before (concat (map error_of (called_in_turn before published w)))
       (notify_thinking after published (world_after_all before published w))"
  using assms
proof (induction before arbitrary: w)
  case Nil
  then show ?case by (simp add: world_after_all_def logged_before_nothing)
next
  case (Cons callback before)
  show ?case
  proof (cases "callback published w")
    case (Callback_returns w1)
    with Cons show ?thesis
      by (simp add: world_after_all_def world_after_def error_of_def)
  next
    case (Callback_raises e w1)
    with Cons.prems obtain msg where e: "e = Exception msg"
      by (cases e) (simp_all add: caught_def)
    with Callback_raises Cons show ?thesis
      by (simp add: world_after_all_def world_after_def error_of_def logged_before_twice)
  qed
qed

text \<open>
  Claim C9, as amended. Let every callback of the list, called in turn, return or
  raise an \<^verbatim>\<open>Exception\<close>. Then \<^verbatim>\<open>_notify_thinking\<close> returns: every callback has been
  called once, in the order of the list, on the world its predecessor left, so that
  the world at the end is the one obtained by running them all in turn, and the
  errors logged are those of the callbacks that raised, in order. In particular the
  callbacks after one that raises an \<^verbatim>\<open>Exception\<close> are still called. When a
  callback raises an exception that is no \<^verbatim>\<open>Exception\<close>, after callbacks of which
  none did, that exception leaves \<^verbatim>\<open>_notify_thinking\<close>: the callbacks before it and
  the callback itself have been called, those after it have not. The order of the
  list is the order of registration.
\<close>

theorem notify_thinking_calls_all:
  fixes callbacks before after rest :: "('e, 'w) callback list"
  shows "(list_all caught (called_in_turn callbacks published w) \<longrightarrow>
        notify_thinking callbacks published w =
          Notify_returns (world_after_all callbacks published w)
            (concat (map error_of (called_in_turn callbacks published w)))
      \<and> length (called_in_turn callbacks published w) = length callbacks)
   \<and> (list_all caught (called_in_turn before published w1)
      \<and> callback published (world_after_all before published w1) = Callback_raises (Exception msg) w2
      \<longrightarrow>
        notify_thinking (before @ callback # after) published w1 =
          logged_before
            (concat (map error_of (called_in_turn before published w1)) @ [Log_callback_error msg])
            (notify_thinking after published w2))
   \<and> (list_all caught (called_in_turn first published w3)
      \<and> stopper published (world_after_all first published w3) = Callback_raises CancelledError w4
      \<longrightarrow>
        notify_thinking (first @ stopper # rest) published w3 =
          Notify_raises CancelledError w4
            (concat (map error_of (called_in_turn first published w3))))
   \<and> foldl (\<lambda>registered callback. add_thinking_callback callback registered) [] callbacks
       = callbacks"
proof -
  have 1: "length (called_in_turn callbacks published w) = length callbacks"
    by (induction callbacks arbitrary: w) auto
  have 2: "notify_thinking callbacks published w =
          Notify_returns (world_after_all callbacks published w)
            (concat (map error_of (called_in_turn callbacks published w)))"
    if "list_all caught (called_in_turn callbacks published w)"
    using notify_thinking_append [OF that, of "[]"] by (simp add: logged_before_def)
  have 3: "notify_thinking (before @ callback # after) published w1 =
          logged_before
            (concat (map error_of (called_in_turn before published w1)) @ [Log_callback_error msg])
            (notify_thinking after published w2)"
    if "list_all caught (called_in_turn before published w1)"
      and "callback published (world_after_all before published w1) = Callback_raises (Exception msg) w2"
    using notify_thinking_append [OF that(1), of "callback # after"] that(2)
    by (simp add: logged_before_twice)
  have 4: "notify_thinking (first @ stopper # rest) published w3 =
          Notify_raises CancelledError w4
            (concat (map error_of (called_in_turn first published w3)))"
    if "list_all caught (called_in_turn first published w3)"
      and "stopper published (world_after_all first published w3) = Callback_raises CancelledError w4"
    for first :: "('e, 'w) callback list" and stopper w3 w4
    using notify_thinking_append [OF that(1), of "stopper # rest"] that(2)
    by (simp add: logged_before_def)
  have 5: "foldl (\<lambda>registered callback. add_thinking_callback callback registered) init callbacks
       = init @ callbacks" for init :: "('e, 'w) callback list"
    by (induction callbacks arbitrary: init) (auto simp: add_thinking_callback_def)
  from 1 2 3 4 5 [of "[]"] show ?thesis by simp
qed

text \<open>
  Claim C9 as stated fails: a callback interrupted by an exception that is no
  \<^verbatim>\<open>Exception\<close> ends \<^verbatim>\<open>_notify_thinking\<close> with that exception, and the callback
  registered after it is not called.
\<close>

theorem notify_thinking_interrupted:
  "notify_thinking [noting ''a'', interrupted ''b'', noting ''c''] ''plan'' []
     = Notify_raises CancelledError [''a: plan'', ''b: plan''] []"
  by (simp add: noting_def interrupted_def)

text \<open>
  Three callbacks of which the second fails with an \<^verbatim>\<open>Exception\<close> are all called, in
  order; with the second interrupted instead, the third is not called.
\<close>

theorem notify_thinking_calls_all_witness:
  "list_all caught (called_in_turn [noting ''a'', failing ''b'', noting ''c''] ''plan'' [])
   \<and> notify_thinking [noting ''a'', failing ''b'', noting ''c''] ''plan'' []
       = Notify_returns [''a: plan'', ''b: plan'', ''c: plan''] [Log_callback_error ''b failed'']
   \<and> list_all caught (called_in_turn [noting ''a''] ''plan'' [])
   \<and> failing ''b'' ''plan'' (world_after_all [noting ''a''] ''plan'' [])
       = Callback_raises (Exception ''b failed'') [''a: plan'', ''b: plan'']
   \<and> notify_thinking ([noting ''a''] @ failing ''b'' # [noting ''c'']) ''plan'' []
       = logged_before [Log_callback_error ''b failed'']
           (notify_thinking [noting ''c''] ''plan'' [''a: plan'', ''b: plan''])
   \<and> interrupted ''b'' ''plan'' (world_after_all [noting ''a''] ''plan'' [])
       = Callback_raises CancelledError [''a: plan'', ''b: plan'']
   \<and> notify_thinking ([noting ''a''] @ interrupted ''b'' # [noting ''c'']) ''plan'' []
       = Notify_raises CancelledError [''a: plan'', ''b: plan''] []"
proof -
  have h1: "list_all caught (called_in_turn [noting ''a'', failing ''b'', noting ''c''] ''plan'' [])"
    by (simp add: noting_def failing_def caught_def world_after_def)
  have h2: "list_all caught (called_in_turn [noting ''a''] ''plan'' [])"
    by (simp add: noting_def caught_def)
  have h3: "failing ''b'' ''plan'' (world_after_all [noting ''a''] ''plan'' [])
       = Callback_raises (Exception ''b failed'') [''a: plan'', ''b: plan'']"
    by (simp add: noting_def failing_def world_after_all_def world_after_def)
  have h4: "interrupted ''b'' ''plan'' (world_after_all [noting ''a''] ''plan'' [])
       = Callback_raises CancelledError [''a: plan'', ''b: plan'']"
    by (simp add: noting_def interrupted_def world_after_all_def world_after_def)
  have e1: "world_after_all [noting ''a'', failing ''b'', noting ''c''] ''plan'' []
      = [''a: plan'', ''b: plan'', ''c: plan'']"
    by (simp add: noting_def failing_def world_after_all_def world_after_def)
  have e2: "concat (map error_of (called_in_turn [noting ''a'', failing ''b'', noting ''c''] ''plan'' []))
      = [Log_callback_error ''b failed'']"
    by (simp add: noting_def failing_def error_of_def world_after_def)
  have e3: "concat (map error_of (called_in_turn [noting ''a''] ''plan'' [])) = []"
    by (simp add: noting_def error_of_def)
  note T = notify_thinking_calls_all [where callbacks = "[noting ''a'', failing ''b'', noting ''c'']"
      and published = "''plan''" and w = "[]" and before = "[noting ''a'']" and ?w1.0 = "[]"
      and callback = "failing ''b''" and msg = "''b failed''" and ?w2.0 = "[''a: plan'', ''b: plan'']"
      and after = "[noting ''c'']" and first = "[noting ''a'']" and ?w3.0 = "[]"
      and stopper = "interrupted ''b''" and ?w4.0 = "[''a: plan'', ''b: plan'']"
      and rest = "[noting ''c'']"]
  from T [THEN conjunct1, rule_format, OF h1, THEN conjunct1]
  have c1: "notify_thinking [noting ''a'', failing ''b'', noting ''c''] ''plan'' []
       = Notify_returns [''a: plan'', ''b: plan'', ''c: plan''] [Log_callback_error ''b failed'']"
    unfolding e1 e2 .
  from T [THEN conjunct2, THEN conjunct1, rule_format, OF conjI, OF h2 h3]
  have c2: "notify_thinking ([noting ''a''] @ failing ''b'' # [noting ''c'']) ''plan'' []
       = logged_before [Log_callback_error ''b failed'']
           (notify_thinking [noting ''c''] ''plan'' [''a: plan'', ''b: plan''])"
    unfolding e3 by simp
  from T [THEN conjunct2, THEN conjunct2, THEN conjunct1, rule_format, OF conjI, OF h2 h4]
  have c3: "notify_thinking ([noting ''a''] @ interrupted ''b'' # [noting ''c'']) ''plan'' []
       = Notify_raises CancelledError [''a: plan'', ''b: plan''] []"
    unfolding e3 .
  from h1 c1 h2 h3 c2 h4 c3 show ?thesis by blast
qed

subsection \<open>Starting a run for a client\<close>




subsection \<open>Saving and reloading a conversation\<close>






end
